theory Spec2Isabelle
  imports Complex_Main "HOL-Library.List_Lexorder" "HOL-Library.Char_ord"
begin

section \<open>JSON documents\<close>

text \<open>
  Flow exports, templates and environment maps are JSON-like trees. An object is an
  association list in the order in which its keys are enumerated; a real object never
  holds a key twice (\<open>keys_distinct\<close> below). Numbers are the integer-valued ones:
  on these, and up to \<open>2^53\<close> in magnitude, the double arithmetic of the scripts is
  exact. Strings are byte strings, compared code unit by code unit as the default
  \<open>Array.prototype.sort\<close> does.
\<close>

datatype json = JNull | JBool bool | JNum int | JStr string
  | JArr "json list" | JObj "(string \<times> json) list"

text \<open>What a script can throw.\<close>

datatype error =
    TypeError
  | TokenNotFound string
  | UnresolvedTokensFound "string list"
  | ValidationFailed string "string list"

section \<open>scripts/normalize.js: FlowNormalizer\<close>

text \<open>
  \<open>normalize\<close> deep-copies its argument (\<open>JSON.parse(JSON.stringify(flowJson))\<close>, the
  identity on these trees) and runs four passes over the copy. The first two and the
  root step of the last two mutate the copy in place; the model returns the mutated tree.
\<close>

subsection \<open>removeMetadataNoise\<close>

definition fieldsToRemove :: "string list" where
  "fieldsToRemove = [''lastModifiedTime'', ''createdTime'', ''lastModifiedBy'', ''createdBy'', ''version'']"

fun removeFields :: "json \<Rightarrow> json" where
  "removeFields (JObj kvs) =
     JObj (map (\<lambda>(k, v). (k, removeFields v)) (filter (\<lambda>(k, v). k \<notin> set fieldsToRemove) kvs))"
| "removeFields (JArr xs) = JArr (map removeFields xs)"
| "removeFields v = v"


subsection \<open>normalizeCoordinates\<close>

text \<open>
  \<open>Math.round\<close> rounds to the nearest integer, a tie towards plus infinity. The two
  assignments \<open>obj.x = normalizeCoord(obj.x)\<close> and \<open>obj.y = ...\<close> come first, the descent
  into the values after them.
\<close>

definition Math_round :: "rat \<Rightarrow> int" where
  "Math_round q = \<lfloor>q + 1 / 2\<rfloor>"

fun normalizeCoord :: "json \<Rightarrow> json" where
  "normalizeCoord (JNum coord) = JNum (Math_round (of_int coord / 10) * 10)"
| "normalizeCoord coord = coord"

definition assign_coord :: "string \<Rightarrow> (string \<times> json) list \<Rightarrow> (string \<times> json) list" where
  "assign_coord c kvs = map (\<lambda>(k, v). (k, if k = c then normalizeCoord v else v)) kvs"

lemma size_normalizeCoord [simp]: "size (normalizeCoord v) = size v"
  by (cases v) simp_all

lemma size_member: "(k, v) \<in> set kvs \<Longrightarrow> size v < Suc (size_list (size_prod (\<lambda>_. 0) size) kvs)"
  by (induction kvs) auto

lemma assign_coord_member:
  "(k, v) \<in> set (assign_coord c kvs) \<Longrightarrow> \<exists>w. (k, w) \<in> set kvs \<and> size v = size w"
  by (auto simp: assign_coord_def split: if_splits)

function processCoordinates :: "json \<Rightarrow> json" where
  "processCoordinates (JObj kvs) =
     JObj (map (\<lambda>(k, v). (k, processCoordinates v)) (assign_coord ''y'' (assign_coord ''x'' kvs)))"
| "processCoordinates (JArr xs) = JArr (map processCoordinates xs)"
| "processCoordinates JNull = JNull"
| "processCoordinates (JBool b) = JBool b"
| "processCoordinates (JNum n) = JNum n"
| "processCoordinates (JStr s) = JStr s"
  by pat_completeness auto
termination
proof (relation "measure size")
  show "wf (measure size)" by simp
next
  fix kvs :: "(string \<times> json) list" and x z and v :: json
  assume "x \<in> set (assign_coord ''y'' (assign_coord ''x'' kvs))" and "(z, v) = x"
  then have "(z, v) \<in> set (assign_coord ''y'' (assign_coord ''x'' kvs))" by simp
  then obtain w where "(z, w) \<in> set (assign_coord ''x'' kvs)" "size v = size w"
    using assign_coord_member by blast
  moreover then obtain u where "(z, u) \<in> set kvs" "size w = size u"
    using assign_coord_member by blast
  ultimately show "(v, JObj kvs) \<in> measure size"
    using size_member by fastforce
next
  fix xs :: "json list" and x
  assume "x \<in> set xs"
  then show "(x, JArr xs) \<in> measure size"
    by (induction xs) auto
qed


subsection \<open>sortObjects\<close>

text \<open>
  Below the root \<open>sortObjectKeys\<close> builds a new object, key by key in sorted order. At the
  root every key is deleted and assigned again, in sorted order (\<open>resort_key\<close>); an array
  root keeps its indices. \<open>Object.keys\<close> throws on \<open>null\<close>; on a string it lists the
  indices of its characters, which strict-mode code (a class body) can neither delete
  nor assign.
\<close>

fun sortObjectKeys :: "json \<Rightarrow> json" where
  "sortObjectKeys (JArr xs) = JArr (map sortObjectKeys xs)"
| "sortObjectKeys (JObj kvs) = JObj (map (\<lambda>(k, v). (k, sortObjectKeys v)) (sort_key fst kvs))"
| "sortObjectKeys v = v"



subsection \<open>removeEmptyValues\<close>

text \<open>
  \<open>cleanObject\<close> drops \<open>null\<close> items of an array and the keys of an object whose cleaned
  value is \<open>null\<close> or an empty array. The root itself only has its values replaced.
\<close>

fun cleanObject :: "json \<Rightarrow> json" where
  "cleanObject (JArr xs) = JArr (filter (\<lambda>item. item \<noteq> JNull) (map cleanObject xs))"
| "cleanObject (JObj kvs) =
     JObj (filter (\<lambda>(k, cleanedValue). cleanedValue \<noteq> JNull \<and> cleanedValue \<noteq> JArr [])
            (map (\<lambda>(k, v). (k, cleanObject v)) kvs))"
| "cleanObject v = v"


subsection \<open>normalize\<close>


section \<open>Properties of the normalizer\<close>

subsection \<open>Rounding\<close>


lemma Math_round_of_int [simp]: "Math_round (of_int k) = k"
  unfolding Math_round_def by (rule floor_unique) simp_all


subsection \<open>Invariants of a normalized tree\<close>


fun all_objs :: "((string \<times> json) list \<Rightarrow> bool) \<Rightarrow> json \<Rightarrow> bool" where
  "all_objs P (JObj kvs) = (P kvs \<and> (\<forall>x\<in>set kvs. all_objs P (snd x)))"
| "all_objs P (JArr xs) = (\<forall>x\<in>set xs. all_objs P x)"
| "all_objs P v = True"

definition no_noise :: "(string \<times> json) list \<Rightarrow> bool" where
  "no_noise kvs = (\<forall>k\<in>set (map fst kvs). k \<notin> set fieldsToRemove)"

definition coords_done :: "(string \<times> json) list \<Rightarrow> bool" where
  "coords_done kvs = (\<forall>x\<in>set kvs. fst x = ''x'' \<or> fst x = ''y'' \<longrightarrow> normalizeCoord (snd x) = snd x)"

definition keys_sorted :: "(string \<times> json) list \<Rightarrow> bool" where
  "keys_sorted kvs = sorted (map fst kvs)"

definition keys_distinct :: "(string \<times> json) list \<Rightarrow> bool" where
  "keys_distinct kvs = distinct (map fst kvs)"


lemma map_fst_map_snd [simp]: "map fst (map (\<lambda>(k, v). (k, f v)) kvs) = map fst kvs"
  by (induction kvs) auto





lemma cleanObject_eq_JNull [simp]: "cleanObject t = JNull \<longleftrightarrow> t = JNull"
  by (cases t) auto



lemma fst_comp_snd_map [simp]: "fst \<circ> (\<lambda>(k, v). (k, f k v)) = fst"
  by auto

lemma map_fst_assign_coord [simp]: "map fst (assign_coord c kvs) = map fst kvs"
  by (induction kvs) (auto simp: assign_coord_def)

lemma map_fst_sort_key: "map fst (sort_key fst kvs) = sort (map fst kvs)"
proof (induction kvs)
  case (Cons a kvs)
  have "map fst (insort_key fst a ys) = insort (fst a) (map fst ys)" for ys
    by (induction ys) auto
  with Cons show ?case by simp
qed simp

lemma no_noise_simps [simp]:
  "no_noise (map (\<lambda>(k, v). (k, f v)) kvs) = no_noise kvs"
  "no_noise (assign_coord c kvs) = no_noise kvs"
  "no_noise (sort_key fst kvs) = no_noise kvs"
  "no_noise kvs \<Longrightarrow> no_noise (filter P kvs)"
  by (auto simp: no_noise_def map_fst_sort_key)

lemma keys_distinct_simps [simp]:
  "keys_distinct (map (\<lambda>(k, v). (k, f v)) kvs) = keys_distinct kvs"
  "keys_distinct (assign_coord c kvs) = keys_distinct kvs"
  "keys_distinct (sort_key fst kvs) = keys_distinct kvs"
  "keys_distinct kvs \<Longrightarrow> keys_distinct (filter P kvs)"
  by (auto simp: keys_distinct_def map_fst_sort_key distinct_map_filter)

lemma keys_sorted_simps [simp]:
  "keys_sorted (map (\<lambda>(k, v). (k, f v)) kvs) = keys_sorted kvs"
  "keys_sorted (sort_key fst kvs)"
  "keys_sorted kvs \<Longrightarrow> keys_sorted (filter P kvs)"
  by (auto simp: keys_sorted_def map_fst_sort_key sorted_filter)

lemma normalizeCoord_idem [simp]: "normalizeCoord (normalizeCoord v) = normalizeCoord v"
  by (cases v) simp_all

lemma normalizeCoord_sortObjectKeys:
  "normalizeCoord v = v \<Longrightarrow> normalizeCoord (sortObjectKeys v) = sortObjectKeys v"
  by (cases v) auto

lemma normalizeCoord_cleanObject:
  "normalizeCoord v = v \<Longrightarrow> normalizeCoord (cleanObject v) = cleanObject v"
  by (cases v) auto

lemma normalizeCoord_processCoordinates:
  "normalizeCoord v = v \<Longrightarrow> normalizeCoord (processCoordinates v) = processCoordinates v"
  by (cases v) auto

lemma all_objs_normalizeCoord [simp]: "all_objs P (normalizeCoord v) = all_objs P v"
  by (cases v) auto


lemma coords_done_simps [simp]:
  "coords_done kvs \<Longrightarrow> coords_done (map (\<lambda>(k, v). (k, sortObjectKeys v)) kvs)"
  "coords_done kvs \<Longrightarrow> coords_done (map (\<lambda>(k, v). (k, cleanObject v)) kvs)"
  "coords_done (sort_key fst kvs) = coords_done kvs"
  "coords_done kvs \<Longrightarrow> coords_done (filter P kvs)"
  by (auto simp: coords_done_def normalizeCoord_sortObjectKeys normalizeCoord_cleanObject)












subsection \<open>The passes on a container root\<close>

fun rootClean :: "json \<Rightarrow> json" where
  "rootClean (JObj kvs) = JObj (map (\<lambda>(k, v). (k, cleanObject v)) kvs)"
| "rootClean (JArr xs) = JArr (map cleanObject xs)"
| "rootClean v = v"







definition is_container :: "json \<Rightarrow> bool" where
  "is_container t = (case t of JObj _ \<Rightarrow> True | JArr _ \<Rightarrow> True | _ \<Rightarrow> False)"

lemma is_container_passes [simp]:
  "is_container (removeFields t) = is_container t"
  "is_container (processCoordinates t) = is_container t"
  "is_container (sortObjectKeys t) = is_container t"
  "is_container (rootClean t) = is_container t"
  by (cases t; simp add: is_container_def)+




subsection \<open>Idempotence\<close>



subsection \<open>Paths into a tree\<close>

text \<open>
  A path addresses a value below the root by object keys and array indices.
  \<open>cleanObject\<close> drops the \<open>null\<close> items of an array, so an index moves down by the
  number of \<open>null\<close> items before it (\<open>path_below\<close>); the root array keeps its items
  (\<open>path_after\<close>).
\<close>

datatype step = Key string | Idx nat


definition kept_index :: "json list \<Rightarrow> nat \<Rightarrow> nat" where
  "kept_index xs i = length (filter (\<lambda>item. item \<noteq> JNull) (take i xs))"

fun path_below :: "json \<Rightarrow> step list \<Rightarrow> step list" where
  "path_below (JObj kvs) (Key k # p) =
     Key k # (case map_of kvs k of None \<Rightarrow> p | Some v \<Rightarrow> path_below v p)"
| "path_below (JArr xs) (Idx i # p) =
     (if i < length xs then Idx (kept_index xs i) # path_below (xs ! i) p else Idx i # p)"
| "path_below t p = p"




fun is_leaf :: "json \<Rightarrow> bool" where
  "is_leaf (JBool b) = True"
| "is_leaf (JNum n) = True"
| "is_leaf (JStr s) = True"
| "is_leaf t = False"





lemma removeFields_JNull [simp]: "removeFields t = JNull \<longleftrightarrow> t = JNull"
  by (cases t) auto

lemma processCoordinates_JNull [simp]: "processCoordinates t = JNull \<longleftrightarrow> t = JNull"
  by (cases t) auto

lemma sortObjectKeys_JNull [simp]: "sortObjectKeys t = JNull \<longleftrightarrow> t = JNull"
  by (cases t) auto

lemma normalizeCoord_JNull [simp]: "normalizeCoord t = JNull \<longleftrightarrow> t = JNull"
  by (cases t) auto

















lemma path_below_normalizeCoord [simp]: "path_below (normalizeCoord v) p = path_below v p"
  by (cases v) auto










lemma leaf_passes [simp]:
  "is_leaf v \<Longrightarrow> removeFields v = v"
  "is_leaf v \<Longrightarrow> processCoordinates v = v"
  "is_leaf v \<Longrightarrow> sortObjectKeys v = v"
  by (cases v; simp)+




subsection \<open>Coordinate quantization\<close>




subsection \<open>Totality\<close>





section \<open>Strings and regular expressions of the scripts\<close>

fun startsWith :: "string \<Rightarrow> string \<Rightarrow> bool" where
  "startsWith s [] = True"
| "startsWith [] (c # cs) = False"
| "startsWith (x # xs) (c # cs) = (x = c \<and> startsWith xs cs)"

fun str_includes :: "string \<Rightarrow> string \<Rightarrow> bool" where
  "str_includes [] sub = (sub = [])"
| "str_includes (x # xs) sub = (startsWith (x # xs) sub \<or> str_includes xs sub)"

fun str_split :: "char \<Rightarrow> string \<Rightarrow> string list" where
  "str_split sep [] = [[]]"
| "str_split sep (c # cs) =
     (if c = sep then [] # str_split sep cs
      else (case str_split sep cs of [] \<Rightarrow> [[c]] | w # ws \<Rightarrow> (c # w) # ws))"

fun str_join :: "string \<Rightarrow> string list \<Rightarrow> string" where
  "str_join sep [] = []"
| "str_join sep [w] = w"
| "str_join sep (w # ws) = w @ sep @ str_join sep ws"

definition digit :: "nat \<Rightarrow> char" where
  "digit d = char_of (48 + d)"

function show_nat :: "nat \<Rightarrow> string" where
  "show_nat n = (if n < 10 then [digit n] else show_nat (n div 10) @ [digit (n mod 10)])"
  by pat_completeness auto
termination
  by (relation "measure id") auto

definition show_int :: "int \<Rightarrow> string" where
  "show_int i = (if i < 0 then CHR ''-'' # show_nat (nat (- i)) else show_nat (nat i))"

text \<open>
  A character class is a list of ranges, possibly negated. A pattern is a sequence of
  items: a literal character, a class under a greedy quantifier \<open>{lo,hi}\<close> (no upper
  bound: \<open>None\<close>), the same inside a capture group, and the anchors \<open>^\<close> and \<open>$\<close> (no
  \<open>m\<close> flag: start and end of input).
\<close>

datatype cset = Chars bool "(char \<times> char) list"

fun in_cset :: "cset \<Rightarrow> char \<Rightarrow> bool" where
  "in_cset (Chars negated ranges) c = (negated \<noteq> list_ex (\<lambda>(lo, hi). lo \<le> c \<and> c \<le> hi) ranges)"

datatype item = Lit char | Cls cset nat "nat option" | Cap cset nat "nat option" | Bol | Eol

fun try_down :: "nat \<Rightarrow> nat \<Rightarrow> (nat \<Rightarrow> 'a option) \<Rightarrow> 'a option" where
  "try_down 0 lo f = (if lo = 0 then f 0 else None)"
| "try_down (Suc n) lo f =
     (if Suc n < lo then None
      else (case f (Suc n) of Some r \<Rightarrow> Some r | None \<Rightarrow> try_down n lo f))"

definition run_length :: "cset \<Rightarrow> nat option \<Rightarrow> string \<Rightarrow> nat" where
  "run_length cs hi s =
     (let n = length (takeWhile (in_cset cs) s) in case hi of None \<Rightarrow> n | Some h \<Rightarrow> min h n)"

text \<open>
  \<open>match_here p bol s\<close>: the pattern matched at the start of \<open>s\<close> (\<open>bol\<close>: this is the
  start of the input), with backtracking; the captures and the number of characters
  consumed.
\<close>

fun match_here :: "item list \<Rightarrow> bool \<Rightarrow> string \<Rightarrow> (string list \<times> nat) option" where
  "match_here [] bol s = Some ([], 0)"
| "match_here (Lit c # p) bol s =
     (case s of [] \<Rightarrow> None
      | x # xs \<Rightarrow> if x = c then map_option (\<lambda>(caps, n). (caps, Suc n)) (match_here p False xs) else None)"
| "match_here (Bol # p) bol s = (if bol then match_here p bol s else None)"
| "match_here (Eol # p) bol s = (if s = [] then match_here p bol s else None)"
| "match_here (Cls cs lo hi # p) bol s =
     try_down (run_length cs hi s) lo
       (\<lambda>k. map_option (\<lambda>(caps, n). (caps, k + n)) (match_here p (bol \<and> k = 0) (drop k s)))"
| "match_here (Cap cs lo hi # p) bol s =
     try_down (run_length cs hi s) lo
       (\<lambda>k. map_option (\<lambda>(caps, n). (take k s # caps, k + n)) (match_here p (bol \<and> k = 0) (drop k s)))"

datatype seg = Text char | Match string "string list"

text \<open>
  All matches from left to right, as a global regular expression finds them
  (\<open>replace\<close>, \<open>match\<close>, a loop of \<open>exec\<close>): after a match the search goes on behind it;
  after an empty match it moves on by one character.
\<close>

function scan :: "item list \<Rightarrow> bool \<Rightarrow> string \<Rightarrow> seg list" where
  "scan p bol s =
     (case match_here p bol s of
        None \<Rightarrow> (case s of [] \<Rightarrow> [] | c # cs \<Rightarrow> Text c # scan p False cs)
      | Some (caps, n) \<Rightarrow>
          if n = 0 then Match [] caps # (case s of [] \<Rightarrow> [] | c # cs \<Rightarrow> Text c # scan p False cs)
          else Match (take n s) caps # (if s = [] then [] else scan p False (drop n s)))"
  by pat_completeness auto
termination
  by (relation "measure (\<lambda>(p, bol, s). length s)") auto

declare scan.simps [simp del]

definition matches :: "item list \<Rightarrow> string \<Rightarrow> string list" where
  "matches p s = concat (map (\<lambda>g. case g of Text c \<Rightarrow> [] | Match w caps \<Rightarrow> [w]) (scan p True s))"

definition captures :: "item list \<Rightarrow> string \<Rightarrow> string list" where
  "captures p s = concat (map (\<lambda>g. case g of Text c \<Rightarrow> [] | Match w caps \<Rightarrow> take 1 caps) (scan p True s))"

fun search :: "item list \<Rightarrow> bool \<Rightarrow> string \<Rightarrow> (string list \<times> nat) option" where
  "search p bol [] = match_here p bol []"
| "search p bol (c # cs) =
     (case match_here p bol (c # cs) of Some r \<Rightarrow> Some r | None \<Rightarrow> search p False cs)"

definition regex_test :: "item list \<Rightarrow> string \<Rightarrow> bool" where
  "regex_test p s = (search p True s \<noteq> None)"

definition lits :: "string \<Rightarrow> item list" where
  "lits s = map Lit s"

definition single :: "cset \<Rightarrow> item" where
  "single cs = Cls cs 1 (Some 1)"

text \<open>render.js: \<open>/\$\{([^}]+)\}/g\<close>\<close>

definition tokenPattern :: "item list" where
  "tokenPattern = lits ''${'' @ [Cap (Chars True [(CHR ''}'', CHR ''}'')]) 1 None] @ lits ''}''"

section \<open>scripts/render.js: TemplateRenderer\<close>

subsection \<open>Values met while a token path is resolved\<close>

text \<open>
  \<open>resolveToken\<close> tests \<open>part in value\<close>, which also finds what the value inherits from
  its prototype. Those members belong to the runtime, not to this repository: they are
  a parameter. A built-in function carries the text that converting it to a string
  gives; a built-in object carries its text and the properties \<open>in\<close> finds on it.
\<close>

datatype jsvalue =
    Undefined
  | Data json
  | NativeFunction string
  | HostObject string "(string \<times> jsvalue) list"

record runtime =
  object_members :: "(string \<times> jsvalue) list"
  array_members :: "(string \<times> jsvalue) list"

definition is_digit :: "char \<Rightarrow> bool" where
  "is_digit c = (CHR ''0'' \<le> c \<and> c \<le> CHR ''9'')"

definition digits_value :: "string \<Rightarrow> nat" where
  "digits_value s = foldl (\<lambda>n c. 10 * n + (of_char c - 48)) 0 s"

text \<open>An array index, as a property key: a decimal numeral with no leading zero.\<close>

definition array_index :: "string \<Rightarrow> nat option" where
  "array_index part =
     (if part \<noteq> [] \<and> list_all is_digit part \<and> (part = ''0'' \<or> hd part \<noteq> CHR ''0'')
      then Some (digits_value part) else None)"

text \<open>
  One turn of the loop of \<open>resolveToken\<close>: \<open>None\<close> is the branch \<open>return undefined\<close>
  (the value is falsy, is no object, or has no such property).
\<close>

fun lookup_part :: "runtime \<Rightarrow> jsvalue \<Rightarrow> string \<Rightarrow> jsvalue option" where
  "lookup_part rt (Data (JObj kvs)) part =
     (case map_of kvs part of
        Some v \<Rightarrow> Some (Data v)
      | None \<Rightarrow> map_of (object_members rt) part)"
| "lookup_part rt (Data (JArr xs)) part =
     (case array_index part of
        Some i \<Rightarrow> if i < length xs then Some (Data (xs ! i)) else map_of (array_members rt) part
      | None \<Rightarrow> if part = ''length'' then Some (Data (JNum (int (length xs))))
                else map_of (array_members rt) part)"
| "lookup_part rt (HostObject text members) part = map_of members part"
| "lookup_part rt v part = None"

fun walk :: "runtime \<Rightarrow> jsvalue \<Rightarrow> string list \<Rightarrow> jsvalue" where
  "walk rt v [] = v"
| "walk rt v (part # pathParts) =
     (case lookup_part rt v part of None \<Rightarrow> Undefined | Some v' \<Rightarrow> walk rt v' pathParts)"

text \<open>\<open>this.envConfig.tokens\<close>: reading a property of \<open>null\<close> throws.\<close>

definition config_tokens :: "json \<Rightarrow> error + jsvalue" where
  "config_tokens envConfig =
     (case envConfig of
        JNull \<Rightarrow> Inl TypeError
      | JObj kvs \<Rightarrow> (case map_of kvs ''tokens'' of None \<Rightarrow> Inr Undefined | Some v \<Rightarrow> Inr (Data v))
      | _ \<Rightarrow> Inr Undefined)"

definition resolveToken :: "runtime \<Rightarrow> json \<Rightarrow> string \<Rightarrow> error + jsvalue" where
  "resolveToken rt envConfig tokenPath =
     (let pathParts = str_split CHR ''.'' tokenPath
      in case config_tokens envConfig of
           Inl e \<Rightarrow> Inl e
         | Inr v \<Rightarrow> Inr (walk rt v pathParts))"

text \<open>
  The text that \<open>replace\<close> inserts for the value its callback returns: a string as it
  is, a number in decimal, an array as its items joined by commas (\<open>null\<close> as the empty
  text), a plain object as \<open>[object Object]\<close>.
\<close>

fun to_string :: "json \<Rightarrow> string" where
  "to_string JNull = ''null''"
| "to_string (JBool b) = (if b then ''true'' else ''false'')"
| "to_string (JNum n) = show_int n"
| "to_string (JStr s) = s"
| "to_string (JArr xs) = str_join '','' (map (\<lambda>x. if x = JNull then [] else to_string x) xs)"
| "to_string (JObj kvs) = ''[object Object]''"

fun value_text :: "jsvalue \<Rightarrow> string" where
  "value_text Undefined = ''undefined''"
| "value_text (Data v) = to_string v"
| "value_text (NativeFunction text) = text"
| "value_text (HostObject text members) = text"

subsection \<open>render\<close>

text \<open>
  \<open>template.replace(this.tokenPattern, callback)\<close>: the callback runs for the matches
  from left to right, and the first exception it throws ends the call.
\<close>

fun replace_all :: "(string \<Rightarrow> error + string) \<Rightarrow> seg list \<Rightarrow> error + string" where
  "replace_all callback [] = Inr []"
| "replace_all callback (Text c # segs) =
     (case replace_all callback segs of Inl e \<Rightarrow> Inl e | Inr out \<Rightarrow> Inr (c # out))"
| "replace_all callback (Match w caps # segs) =
     (case caps of
        [] \<Rightarrow> Inl TypeError
      | tokenPath # _ \<Rightarrow>
          (case callback tokenPath of
             Inl e \<Rightarrow> Inl e
           | Inr text \<Rightarrow>
               (case replace_all callback segs of Inl e \<Rightarrow> Inl e | Inr out \<Rightarrow> Inr (text @ out))))"

definition render_callback :: "runtime \<Rightarrow> json \<Rightarrow> string \<Rightarrow> error + string" where
  "render_callback rt envConfig tokenPath =
     (case resolveToken rt envConfig tokenPath of
        Inl e \<Rightarrow> Inl e
      | Inr v \<Rightarrow>
          if v = Undefined \<or> v = Data JNull then Inl (TokenNotFound tokenPath)
          else Inr (value_text v))"

definition render :: "runtime \<Rightarrow> json \<Rightarrow> string \<Rightarrow> error + string" where
  "render rt envConfig template =
     (case replace_all (render_callback rt envConfig) (scan tokenPattern True template) of
        Inl e \<Rightarrow> Inl e
      | Inr rendered \<Rightarrow>
          (let remainingTokens = matches tokenPattern rendered
           in if remainingTokens \<noteq> [] then Inl (UnresolvedTokensFound remainingTokens)
              else Inr rendered))"

text \<open>A runtime with the members of \<open>Object.prototype\<close> that matter below.\<close>

definition sample_runtime :: runtime where
  "sample_runtime =
     \<lparr>object_members =
        [(''constructor'', NativeFunction ''function Object() { [native code] }''),
         (''toString'', NativeFunction ''function toString() { [native code] }''),
         (''__proto__'', HostObject ''[object Object]'' [(''__proto__'', Data JNull)])],
      array_members =
        [(''constructor'', NativeFunction ''function Array() { [native code] }'')]\<rparr>"

definition sample_tokens :: json where
  "sample_tokens = JObj
     [(''Queue'', JObj [(''Sales'', JStr ''arn:q''), (''Alias'', JStr ''${Queue.Sales}''), (''None'', JNull)]),
      (''List'', JArr [JNum 1, JNull, JStr ''z''])]"

definition sample_env :: json where
  "sample_env = JObj [(''tokens'', sample_tokens)]"

subsection \<open>Matches of the token pattern\<close>

lemma try_down_Some: "try_down n lo f = Some r \<Longrightarrow> \<exists>k\<le>n. lo \<le> k \<and> f k = Some r"
proof (induction n)
  case 0
  then show ?case by (auto split: if_splits)
next
  case (Suc n)
  show ?case
  proof (cases "f (Suc n)")
    case None
    with Suc.prems have "try_down n lo f = Some r" by (auto split: if_splits)
    with Suc.IH show ?thesis by (meson le_SucI)
  next
    case (Some a)
    with Suc.prems show ?thesis by (auto split: if_splits)
  qed
qed

lemma match_here_Lit:
  "match_here [Lit c] bol s = Some (caps, n) \<Longrightarrow> caps = [] \<and> n = 1 \<and> s \<noteq> [] \<and> hd s = c"
  by (cases s) (auto split: if_splits)

lemma match_here_tokenPattern:
  assumes "match_here tokenPattern bol s = Some (caps, n)"
  shows "\<exists>p. caps = [p]"
proof -
  let ?cs = "Chars True [(CHR ''}'', CHR ''}'')]"
  have tp: "tokenPattern = [Lit CHR ''$'', Lit CHR ''{'', Cap ?cs 1 None, Lit CHR ''}'']"
    by (simp add: tokenPattern_def lits_def)
  from assms obtain x xs where s: "s = x # xs" unfolding tp by (cases s) auto
  with assms have x: "x = CHR ''$''" and
    m1: "map_option (\<lambda>(caps, n). (caps, Suc n)) (match_here [Lit CHR ''{'', Cap ?cs 1 None, Lit CHR ''}''] False xs)
         = Some (caps, n)"
    unfolding tp by (auto split: if_splits)
  from m1 obtain n1 where
    m2: "match_here [Lit CHR ''{'', Cap ?cs 1 None, Lit CHR ''}''] False xs = Some (caps, n1)"
    by (auto simp: map_option_case split: option.splits)
  then obtain y r where xs: "xs = y # r" by (cases xs) auto
  with m2 have
    m3: "map_option (\<lambda>(caps, n). (caps, Suc n)) (match_here [Cap ?cs 1 None, Lit CHR ''}''] False r)
         = Some (caps, n1)"
    by (auto split: if_splits)
  then obtain n2 where m4: "match_here [Cap ?cs 1 None, Lit CHR ''}''] False r = Some (caps, n2)"
    by (auto simp: map_option_case split: option.splits)
  define f where "f = (\<lambda>k. map_option (\<lambda>(caps, n). (take k r # caps, k + n))
              (match_here [Lit CHR ''}''] (False \<and> k = 0) (drop k r)))"
  from m4 have td: "try_down (run_length ?cs None r) 1 f = Some (caps, n2)"
    by (simp add: f_def)
  from try_down_Some [OF td] obtain k where k: "f k = Some (caps, n2)" by blast
  then obtain c' where c': "caps = take k r # fst c'"
      "match_here [Lit CHR ''}''] (False \<and> k = 0) (drop k r) = Some c'"
    unfolding f_def by (cases "match_here [Lit CHR ''}''] (False \<and> k = 0) (drop k r)") auto
  from match_here_Lit [of "CHR ''}''" "False \<and> k = 0" "drop k r" "fst c'" "snd c'"] c'(2)
  have "fst c' = []" by simp
  with c'(1) show ?thesis by simp
qed

fun seg_paths :: "seg list \<Rightarrow> string list" where
  "seg_paths [] = []"
| "seg_paths (Text c # segs) = seg_paths segs"
| "seg_paths (Match w caps # segs) = take 1 caps @ seg_paths segs"

fun single_capture :: "seg list \<Rightarrow> bool" where
  "single_capture [] = True"
| "single_capture (Text c # segs) = single_capture segs"
| "single_capture (Match w caps # segs) = (length caps = 1 \<and> single_capture segs)"

lemma single_capture_scan_gen:
  assumes "\<And>bol s caps n. match_here p bol s = Some (caps, n) \<Longrightarrow> length caps = 1"
  shows "single_capture (scan p bol s)"
  using assms
proof (induction p bol s rule: scan.induct)
  case (1 p bol s)
  note one_cap = "1.prems"
  show ?case
  proof (cases "match_here p bol s")
    case None
    show ?thesis
    proof (cases s)
      case Nil
      with None show ?thesis by (subst scan.simps) simp
    next
      case (Cons c cs)
      with None 1(1) one_cap have "single_capture (scan p False cs)" by blast
      with None Cons show ?thesis by (subst scan.simps) simp
    qed
  next
    case (Some r)
    obtain caps n where r: "r = (caps, n)" by (cases r)
    with Some have len: "length caps = 1" using one_cap by blast
    show ?thesis
    proof (cases "n = 0")
      case True
      show ?thesis
      proof (cases s)
        case Nil
        with Some r True len show ?thesis by (subst scan.simps) simp
      next
        case (Cons c cs)
        with Some r True 1(2) one_cap have "single_capture (scan p False cs)" by blast
        with Some r True len Cons show ?thesis by (subst scan.simps) simp
      qed
    next
      case False
      show ?thesis
      proof (cases "s = []")
        case True
        with Some r False len show ?thesis by (subst scan.simps) simp
      next
        case ne: False
        with Some r False 1(3) one_cap have "single_capture (scan p False (drop n s))" by blast
        with Some r False len ne show ?thesis by (subst scan.simps) simp
      qed
    qed
  qed
qed

lemma single_capture_scan: "single_capture (scan tokenPattern bol s)"
proof (rule single_capture_scan_gen)
  fix bol s caps n
  assume "match_here tokenPattern bol s = Some (caps, n)"
  then obtain p where "caps = [p]" using match_here_tokenPattern by blast
  then show "length caps = 1" by simp
qed

lemma captures_seg_paths: "captures p s = seg_paths (scan p True s)"
proof -
  have "concat (map (\<lambda>g. case g of Text c \<Rightarrow> [] | Match w caps \<Rightarrow> take 1 caps) segs) = seg_paths segs"
    for segs
    by (induction segs rule: seg_paths.induct) simp_all
  then show ?thesis by (simp add: captures_def)
qed

text \<open>The token paths of a template, from left to right.\<close>

definition token_paths :: "string \<Rightarrow> string list" where
  "token_paths template = captures tokenPattern template"

lemma token_paths_seg_paths: "token_paths template = seg_paths (scan tokenPattern True template)"
  by (simp add: token_paths_def captures_seg_paths)

text \<open>
  A path is unresolved when \<open>resolveToken\<close> returns \<open>undefined\<close> or \<open>null\<close>: the test of
  the callback in \<open>render\<close>.
\<close>

definition unresolved :: "runtime \<Rightarrow> json \<Rightarrow> string \<Rightarrow> bool" where
  "unresolved rt envConfig tokenPath =
     (case resolveToken rt envConfig tokenPath of
        Inl e \<Rightarrow> False
      | Inr v \<Rightarrow> v = Undefined \<or> v = Data JNull)"

definition token_text :: "runtime \<Rightarrow> json \<Rightarrow> string \<Rightarrow> string" where
  "token_text rt envConfig tokenPath =
     (case resolveToken rt envConfig tokenPath of Inl e \<Rightarrow> [] | Inr v \<Rightarrow> value_text v)"

lemma resolveToken_Inr: "envConfig \<noteq> JNull \<Longrightarrow> \<exists>v. resolveToken rt envConfig tokenPath = Inr v"
  by (cases envConfig) (auto simp: resolveToken_def config_tokens_def split: option.splits)

lemma render_callback_unresolved:
  "envConfig \<noteq> JNull \<Longrightarrow> unresolved rt envConfig q \<Longrightarrow>
   render_callback rt envConfig q = Inl (TokenNotFound q)"
  using resolveToken_Inr [of envConfig rt q]
  by (auto simp: render_callback_def unresolved_def)

lemma render_callback_resolved:
  "envConfig \<noteq> JNull \<Longrightarrow> \<not> unresolved rt envConfig q \<Longrightarrow>
   render_callback rt envConfig q = Inr (token_text rt envConfig q)"
  using resolveToken_Inr [of envConfig rt q]
  by (auto simp: render_callback_def unresolved_def token_text_def)

lemma replace_all_first_failure:
  assumes "single_capture segs" "envConfig \<noteq> JNull"
    and "find (unresolved rt envConfig) (seg_paths segs) = Some p"
  shows "replace_all (render_callback rt envConfig) segs = Inl (TokenNotFound p)"
  using assms
proof (induction segs)
  case Nil
  then show ?case by simp
next
  case (Cons g segs)
  have sc: "single_capture segs" using Cons.prems(1) by (cases g) simp_all
  show ?case
  proof (cases g)
    case (Text c)
    with Cons.prems have "find (unresolved rt envConfig) (seg_paths segs) = Some p"
      by simp
    with Cons.IH sc Cons.prems(2) Text show ?thesis by simp
  next
    case (Match w caps)
    with Cons.prems(1) obtain q where q: "caps = [q]"
      by (cases caps) auto
    show ?thesis
    proof (cases "unresolved rt envConfig q")
      case True
      with Cons.prems(3) Match q have "p = q" by simp
      with True Match q Cons.prems(2) show ?thesis
        by (simp add: render_callback_unresolved)
    next
      case False
      with Cons.prems(3) Match q have "find (unresolved rt envConfig) (seg_paths segs) = Some p"
        by simp
      with Cons.IH sc Cons.prems(2) have "replace_all (render_callback rt envConfig) segs = Inl (TokenNotFound p)"
        by simp
      with False Match q Cons.prems(2) show ?thesis
        by (simp add: render_callback_resolved)
    qed
  qed
qed

text \<open>
  Failing fast. For every template and every environment map (any value but \<open>null\<close>,
  whose property read throws): when some token path of the template is unresolved in the
  sense of \<open>resolveToken\<close>, \<open>render\<close> throws at the first such path from the left, the
  error names that path, and there is no rendered text.
\<close>

theorem render_fails_on_first_unresolved:
  assumes "envConfig \<noteq> JNull"
    and "find (unresolved rt envConfig) (token_paths template) = Some p"
  shows "render rt envConfig template = Inl (TokenNotFound p)"
proof -
  have "replace_all (render_callback rt envConfig) (scan tokenPattern True template)
      = Inl (TokenNotFound p)"
    using single_capture_scan assms unfolding token_paths_seg_paths
    by (rule replace_all_first_failure)
  then show ?thesis by (simp add: render_def)
qed





text \<open>A template whose second and third token paths are unresolved.\<close>

theorem render_fails_on_first_unresolved_witness:
  "render sample_runtime sample_env ''{${Queue.Sales}, ${Queue.Missing}, ${Nope}}''
     = Inl (TokenNotFound ''Queue.Missing'')"
proof -
  have h1: "sample_env \<noteq> JNull" by (simp add: sample_env_def)
  have h2: "find (unresolved sample_runtime sample_env)
      (token_paths ''{${Queue.Sales}, ${Queue.Missing}, ${Nope}}'') = Some ''Queue.Missing''"
    by code_simp
  from render_fails_on_first_unresolved [OF h1 h2] show ?thesis .
qed


subsection \<open>validateRenderedFlow\<close>

text \<open>
  \<open>/^arn:aws:[a-zA-Z0-9-]+:[a-zA-Z0-9-]*:\d{12}:[a-zA-Z0-9-\/]+$/\<close> and
  \<open>/^\+[1-9]\d{1,14}$/\<close>
\<close>

definition alnum_dash :: "(char \<times> char) list" where
  "alnum_dash = [(CHR ''a'', CHR ''z''), (CHR ''A'', CHR ''Z''), (CHR ''0'', CHR ''9''), (CHR ''-'', CHR ''-'')]"

definition arnPattern :: "item list" where
  "arnPattern =
     [Bol] @ lits ''arn:aws:'' @ [Cls (Chars False alnum_dash) 1 None, Lit CHR '':'',
       Cls (Chars False alnum_dash) 0 None, Lit CHR '':'',
       Cls (Chars False [(CHR ''0'', CHR ''9'')]) 12 (Some 12), Lit CHR '':'',
       Cls (Chars False (alnum_dash @ [(CHR ''/'', CHR ''/'')])) 1 None, Eol]"

definition e164Pattern :: "item list" where
  "e164Pattern =
     [Bol, Lit CHR ''+'', single (Chars False [(CHR ''1'', CHR ''9'')]),
      Cls (Chars False [(CHR ''0'', CHR ''9'')]) 1 (Some 14), Eol]"

text \<open>
  \<open>Object.entries\<close> of an object or an array (the indices, in decimal, are the keys).
\<close>

fun entries :: "json \<Rightarrow> (string \<times> json) list" where
  "entries (JObj kvs) = kvs"
| "entries (JArr xs) = zip (map show_nat [0..<length xs]) xs"
| "entries (JStr s) = zip (map show_nat [0..<length s]) (map (\<lambda>c. JStr [c]) s)"
| "entries v = []"

definition child_path :: "string \<Rightarrow> string \<Rightarrow> string" where
  "child_path path key = (if path \<noteq> [] then path @ ''.'' @ key else key)"

text \<open>
  \<open>validateArns\<close> and \<open>validatePhoneNumbers\<close> push their messages to \<open>errors\<close>; the model
  returns the messages pushed, in order.
\<close>

function validateArns :: "json \<Rightarrow> string \<Rightarrow> string list" where
  "validateArns (JStr obj) path =
     (if str_includes obj '':arn:aws:''
      then (if \<not> regex_test arnPattern obj then [''Invalid ARN format at '' @ path @ '': '' @ obj] else [])
      else [])"
| "validateArns (JObj kvs) path =
     concat (map (\<lambda>(key, v). validateArns v (child_path path key)) kvs)"
| "validateArns (JArr xs) path =
     concat (map (\<lambda>(key, v). validateArns v (child_path path key)) (entries (JArr xs)))"
| "validateArns JNull path = []"
| "validateArns (JBool b) path = []"
| "validateArns (JNum n) path = []"
  by pat_completeness auto
termination
proof (relation "measure (\<lambda>(v, path). size v)")
  fix kvs :: "(string \<times> json) list" and path x key v
  assume "x \<in> set kvs" "(key, v) = x"
  then show "((v, child_path path key), (JObj kvs, path)) \<in> measure (\<lambda>(v, path). size v)"
    using size_member [of key v kvs] by simp
next
  fix xs :: "json list" and path x key v
  assume "x \<in> set (entries (JArr xs))" "(key, v) = x"
  then have "v \<in> set xs" by (auto dest: set_zip_rightD)
  then have "size v < Suc (size_list size xs)" by (induction xs) auto
  then show "((v, child_path path key), (JArr xs, path)) \<in> measure (\<lambda>(v, path). size v)"
    by simp
qed simp

function validatePhoneNumbers :: "json \<Rightarrow> string \<Rightarrow> string list" where
  "validatePhoneNumbers (JStr obj) path =
     (if startsWith obj ''+''
      then (if \<not> regex_test e164Pattern obj then [''Invalid E.164 phone number at '' @ path @ '': '' @ obj] else [])
      else [])"
| "validatePhoneNumbers (JObj kvs) path =
     concat (map (\<lambda>(key, v). validatePhoneNumbers v (child_path path key)) kvs)"
| "validatePhoneNumbers (JArr xs) path =
     concat (map (\<lambda>(key, v). validatePhoneNumbers v (child_path path key)) (entries (JArr xs)))"
| "validatePhoneNumbers JNull path = []"
| "validatePhoneNumbers (JBool b) path = []"
| "validatePhoneNumbers (JNum n) path = []"
  by pat_completeness auto
termination
proof (relation "measure (\<lambda>(v, path). size v)")
  fix kvs :: "(string \<times> json) list" and path x key v
  assume "x \<in> set kvs" "(key, v) = x"
  then show "((v, child_path path key), (JObj kvs, path)) \<in> measure (\<lambda>(v, path). size v)"
    using size_member [of key v kvs] by simp
next
  fix xs :: "json list" and path x key v
  assume "x \<in> set (entries (JArr xs))" "(key, v) = x"
  then have "v \<in> set xs" by (auto dest: set_zip_rightD)
  then have "size v < Suc (size_list size xs)" by (induction xs) auto
  then show "((v, child_path path key), (JArr xs, path)) \<in> measure (\<lambda>(v, path). size v)"
    by simp
qed simp

text \<open>\<open>JSON.stringify\<close> without indentation.\<close>

definition hex_digit :: "nat \<Rightarrow> char" where
  "hex_digit d = (if d < 10 then char_of (48 + d) else char_of (87 + d))"

definition escape_char :: "char \<Rightarrow> string" where
  "escape_char c =
     (if c = CHR 0x22 then [CHR 0x5C, CHR 0x22]
      else if c = CHR 0x5C then [CHR 0x5C, CHR 0x5C]
      else if c = CHR 0x08 then [CHR 0x5C, CHR ''b'']
      else if c = CHR 0x0C then [CHR 0x5C, CHR ''f'']
      else if c = CHR 0x0A then [CHR 0x5C, CHR ''n'']
      else if c = CHR 0x0D then [CHR 0x5C, CHR ''r'']
      else if c = CHR 0x09 then [CHR 0x5C, CHR ''t'']
      else if (of_char c :: nat) < 32
        then [CHR 0x5C, CHR ''u'', CHR ''0'', CHR ''0'', hex_digit (of_char c div 16), hex_digit (of_char c mod 16)]
      else [c])"

definition quote :: "string \<Rightarrow> string" where
  "quote s = [CHR 0x22] @ concat (map escape_char s) @ [CHR 0x22]"

fun JSON_stringify :: "json \<Rightarrow> string" where
  "JSON_stringify JNull = ''null''"
| "JSON_stringify (JBool b) = (if b then ''true'' else ''false'')"
| "JSON_stringify (JNum n) = show_int n"
| "JSON_stringify (JStr s) = quote s"
| "JSON_stringify (JArr xs) = ''['' @ str_join '','' (map JSON_stringify xs) @ '']''"
| "JSON_stringify (JObj kvs) =
     ''{'' @ str_join '','' (map (\<lambda>(k, v). quote k @ '':'' @ JSON_stringify v) kvs) @ ''}''"

text \<open>\<open>!flowJson[field]\<close>: the property is missing or its value is falsy.\<close>

fun truthy :: "json \<Rightarrow> bool" where
  "truthy JNull = False"
| "truthy (JBool b) = b"
| "truthy (JNum n) = (n \<noteq> 0)"
| "truthy (JStr s) = (s \<noteq> [])"
| "truthy v = True"

definition field_missing :: "json \<Rightarrow> string \<Rightarrow> bool" where
  "field_missing flowJson field =
     (case flowJson of
        JObj kvs \<Rightarrow> (case map_of kvs field of None \<Rightarrow> True | Some v \<Rightarrow> \<not> truthy v)
      | _ \<Rightarrow> True)"

definition requiredFields :: "string list" where
  "requiredFields = [''name'', ''type'', ''content'']"

definition validateRenderedFlow :: "json \<Rightarrow> string \<Rightarrow> error + unit" where
  "validateRenderedFlow flowJson flowName =
     (if flowJson = JNull then Inl TypeError
      else
        let errors = map (\<lambda>field. ''Missing required field: '' @ field)
                       (filter (field_missing flowJson) requiredFields);
            jsonStr = JSON_stringify flowJson;
            unresolvedTokens = matches tokenPattern jsonStr;
            errors = errors @ (if unresolvedTokens \<noteq> []
                               then [''Unresolved tokens: '' @ str_join '', '' unresolvedTokens] else []);
            errors = errors @ validateArns flowJson [];
            errors = errors @ validatePhoneNumbers flowJson []
        in if length errors > 0 then Inl (ValidationFailed flowName errors) else Inr ())"

text \<open>
  The flow of the repository's test \<open>should validate ARN formats\<close>, which expects
  \<open>validateRenderedFlow\<close> to throw.
\<close>

definition tested_flow :: json where
  "tested_flow = JObj [(''name'', JStr ''TestFlow''), (''type'', JStr ''CONTACT_FLOW''),
     (''content'', JObj [(''lambdaArn'', JStr ''arn:aws:lambda:invalid-format'')])]"

text \<open>
  C4 does not hold of the code: \<open>validateArns\<close> looks only at strings that contain
  \<open>:arn:aws:\<close>, with a colon in front. The ARN of the test, which has no account and no
  resource, starts with \<open>arn:aws:\<close> and is never checked: no entry is pushed and
  \<open>validateRenderedFlow\<close> returns.
\<close>

theorem validateRenderedFlow_misses_arn:
  "validateArns tested_flow [] = [] \<and> validateRenderedFlow tested_flow ''TestFlow'' = Inr ()"
  by code_simp

text \<open>Where a string is checked, every mismatch has its entry, next to the other findings.\<close>

lemma validateRenderedFlow_collects:
  "validateRenderedFlow (JObj [(''name'', JStr ''T''), (''type'', JNum 0),
     (''content'', JArr [JStr ''x:arn:aws:lambda:bad'', JStr ''+0123'', JStr ''+15551234567'',
        JStr ''y:arn:aws:sqs:bad''])]) ''T''
   = Inl (ValidationFailed ''T''
       [''Missing required field: type'',
        ''Invalid ARN format at content.0: x:arn:aws:lambda:bad'',
        ''Invalid ARN format at content.3: y:arn:aws:sqs:bad'',
        ''Invalid E.164 phone number at content.1: +0123''])"
  by code_simp

section \<open>scripts/validate.js: FlowValidator\<close>

text \<open>
  A validator holds the two lists its constructor creates empty. What the class reads
  from outside (the file system, the YAML and JSON parsers, the schema library, \<open>path.join\<close>)
  is a parameter; a call that can throw returns an outcome. The files do not change
  while one validation runs.
\<close>

record validator =
  errors :: "string list"
  warnings :: "string list"

definition new_validator :: validator where
  "new_validator = \<lparr>errors = [], warnings = []\<rparr>"

definition addError :: "string \<Rightarrow> validator \<Rightarrow> validator" where
  "addError message v = v\<lparr>errors := errors v @ [message]\<rparr>"

definition addWarning :: "string \<Rightarrow> validator \<Rightarrow> validator" where
  "addWarning message v = v\<lparr>warnings := warnings v @ [message]\<rparr>"

datatype 'a outcome = Throws string | Returns 'a

record world =
  path_join :: "string \<Rightarrow> string \<Rightarrow> string"
  pathExists :: "string \<Rightarrow> bool"
  readFile :: "string \<Rightarrow> string outcome"
  readdir :: "string \<Rightarrow> (string \<times> bool) list outcome"
  yaml_parse :: "string \<Rightarrow> json outcome"
  schema_error :: "json \<Rightarrow> string option"
  json_parse_error :: "string \<Rightarrow> string option"

text \<open>The message of a TypeError of the runtime; its wording is the engine's.\<close>

definition type_error :: string where
  "type_error = ''TypeError''"

text \<open>
  \<open>value.key\<close> for the keys the validator reads (none of them is inherited from a
  prototype): \<open>None\<close> is \<open>undefined\<close>; reading a property of \<open>undefined\<close> or \<open>null\<close> throws.
\<close>

fun get_prop :: "json option \<Rightarrow> string \<Rightarrow> json option outcome" where
  "get_prop None key = Throws type_error"
| "get_prop (Some JNull) key = Throws type_error"
| "get_prop (Some (JObj kvs)) key = Returns (map_of kvs key)"
| "get_prop (Some v) key = Returns None"

definition truthy_opt :: "json option \<Rightarrow> bool" where
  "truthy_opt v = (case v of None \<Rightarrow> False | Some x \<Rightarrow> truthy x)"

definition text_opt :: "json option \<Rightarrow> string" where
  "text_opt v = (case v of None \<Rightarrow> ''undefined'' | Some x \<Rightarrow> to_string x)"

text \<open>A loop whose body can throw: the first exception ends it.\<close>

fun for_each :: "('a \<Rightarrow> validator \<Rightarrow> validator \<times> unit outcome) \<Rightarrow> 'a list \<Rightarrow> validator
    \<Rightarrow> validator \<times> unit outcome" where
  "for_each body [] v = (v, Returns ())"
| "for_each body (x # xs) v =
     (case body x v of
        (v', Throws m) \<Rightarrow> (v', Throws m)
      | (v', Returns u) \<Rightarrow> for_each body xs v')"

subsection \<open>validateConsistentRegion\<close>

text \<open>\<open>/arn:aws:[^:]+:([^:]*)/\<close>\<close>

definition arnRegex :: "item list" where
  "arnRegex = lits ''arn:aws:'' @
     [Cls (Chars True [(CHR '':'', CHR '':'')]) 1 None, Lit CHR '':'',
      Cap (Chars True [(CHR '':'', CHR '':'')]) 0 None]"

definition checkArn :: "json option \<Rightarrow> string \<Rightarrow> string \<Rightarrow> string \<Rightarrow> validator \<Rightarrow> validator" where
  "checkArn region envPath arn context v =
     (case search arnRegex True arn of
        None \<Rightarrow> v
      | Some (caps, n) \<Rightarrow>
          (case caps of
             [] \<Rightarrow> v
           | m1 # _ \<Rightarrow>
               if m1 \<noteq> [] \<and> Some (JStr m1) \<noteq> region
               then addWarning (''ARN region mismatch in '' @ envPath @ '' ('' @ context
                      @ ''): expected '' @ text_opt region @ '', got '' @ m1) v
               else v))"

text \<open>\<open>typeof value === 'object'\<close>\<close>

fun typeof_object :: "json \<Rightarrow> bool" where
  "typeof_object JNull = True"
| "typeof_object (JObj kvs) = True"
| "typeof_object (JArr xs) = True"
| "typeof_object v = False"

definition region_of_tokens :: "json option \<Rightarrow> string \<Rightarrow> string \<Rightarrow> json \<Rightarrow> validator
    \<Rightarrow> validator \<times> unit outcome" where
  "region_of_tokens region envPath tokenType tokens v =
     (if typeof_object tokens then
        (if tokens = JNull then (v, Throws type_error)
         else (fold (\<lambda>(tokenName, arn) v.
                 case arn of
                   JStr s \<Rightarrow> if startsWith s ''arn:aws:''
                             then checkArn region envPath s (tokenType @ ''.'' @ tokenName) v else v
                 | _ \<Rightarrow> v) (entries tokens) v, Returns ()))
      else (v, Returns ()))"

definition validateConsistentRegion :: "json \<Rightarrow> string \<Rightarrow> validator \<Rightarrow> validator \<times> unit outcome" where
  "validateConsistentRegion config envPath v =
     (case get_prop (Some config) ''connect'' of
        Throws m \<Rightarrow> (v, Throws m)
      | Returns connect \<Rightarrow>
     (case get_prop connect ''region'' of
        Throws m \<Rightarrow> (v, Throws m)
      | Returns region \<Rightarrow>
     (case get_prop (Some config) ''tokens'' of
        Throws m \<Rightarrow> (v, Throws m)
      | Returns None \<Rightarrow> (v, Returns ())
      | Returns (Some tokens) \<Rightarrow>
          if truthy tokens
          then for_each (\<lambda>(tokenType, tokens). region_of_tokens region envPath tokenType tokens)
                 (entries tokens) v
          else (v, Returns ()))))"

subsection \<open>validateInstanceConsistency\<close>

definition mismatch_message :: "string \<Rightarrow> string \<Rightarrow> string" where
  "mismatch_message envPath context =
     ''Instance ID mismatch in '' @ envPath @ '' ('' @ context
       @ ''): ARN doesn't match configured instance ID''"

definition checkConnectArn :: "json option \<Rightarrow> string \<Rightarrow> string \<Rightarrow> string \<Rightarrow> validator \<Rightarrow> validator" where
  "checkConnectArn instanceId envPath arn context v =
     (if str_includes arn ''/instance/'' \<and> \<not> str_includes arn (''/instance/'' @ text_opt instanceId)
      then addError (mismatch_message envPath context) v
      else v)"

definition instance_of_entry :: "json option \<Rightarrow> string \<Rightarrow> string \<Rightarrow> string \<times> json \<Rightarrow> validator \<Rightarrow> validator" where
  "instance_of_entry instanceId envPath tokenType entry v =
     (case entry of (tokenName, arn) \<Rightarrow>
        (case arn of
           JStr s \<Rightarrow> if str_includes s ''arn:aws:connect:''
                     then checkConnectArn instanceId envPath s (tokenType @ ''.'' @ tokenName) v
                     else v
         | _ \<Rightarrow> v))"

definition instance_of_tokens :: "json option \<Rightarrow> string \<Rightarrow> json \<Rightarrow> string \<Rightarrow> validator \<Rightarrow> validator" where
  "instance_of_tokens instanceId envPath tokens tokenType v =
     (case get_prop (Some tokens) tokenType of
        Throws m \<Rightarrow> v
      | Returns None \<Rightarrow> v
      | Returns (Some typed) \<Rightarrow>
          if truthy typed
          then fold (instance_of_entry instanceId envPath tokenType) (entries typed) v
          else v)"

definition connectTokenTypes :: "string list" where
  "connectTokenTypes = [''Queue'', ''Prompt'', ''Lex'']"

definition validateInstanceConsistency :: "json \<Rightarrow> string \<Rightarrow> validator \<Rightarrow> validator \<times> unit outcome" where
  "validateInstanceConsistency config envPath v =
     (case get_prop (Some config) ''connect'' of
        Throws m \<Rightarrow> (v, Throws m)
      | Returns connect \<Rightarrow>
     (case get_prop connect ''instance_id'' of
        Throws m \<Rightarrow> (v, Throws m)
      | Returns instanceId \<Rightarrow>
     (case get_prop (Some config) ''tokens'' of
        Throws m \<Rightarrow> (v, Throws m)
      | Returns None \<Rightarrow> (v, Returns ())
      | Returns (Some tokens) \<Rightarrow>
          if truthy tokens
          then (fold (instance_of_tokens instanceId envPath tokens) connectTokenTypes v,
                Returns ())
          else (v, Returns ()))))"

subsection \<open>validateEnvironmentConfig and validateEnvironmentConfigs\<close>

definition validateEnvironmentConfig :: "world \<Rightarrow> string \<Rightarrow> validator \<Rightarrow> validator" where
  "validateEnvironmentConfig w envPath v =
     (let failed = (\<lambda>m. addError (''Failed to validate environment config '' @ envPath @ '': '' @ m))
      in case readFile w envPath of
           Throws m \<Rightarrow> failed m v
         | Returns yamlContent \<Rightarrow>
        (case yaml_parse w yamlContent of
           Throws m \<Rightarrow> failed m v
         | Returns config \<Rightarrow>
        (case schema_error w config of
           Some m \<Rightarrow> addError (''Invalid environment config '' @ envPath @ '': '' @ m) v
         | None \<Rightarrow>
        (case validateConsistentRegion config envPath v of
           (v1, Throws m) \<Rightarrow> failed m v1
         | (v1, Returns u) \<Rightarrow>
        (case validateInstanceConsistency config envPath v1 of
           (v2, Throws m) \<Rightarrow> failed m v2
         | (v2, Returns u) \<Rightarrow> v2)))))"

definition envFiles :: "string list" where
  "envFiles = [''dev.yaml'', ''test.yaml'', ''prod.yaml'']"

definition validateEnvironmentConfigs :: "world \<Rightarrow> string \<Rightarrow> validator \<Rightarrow> validator" where
  "validateEnvironmentConfigs w envDir v =
     fold (\<lambda>envFile v.
        let envPath = path_join w envDir envFile
        in if pathExists w envPath then validateEnvironmentConfig w envPath v
           else addError (''Environment file not found: '' @ envFile) v) envFiles v"

subsection \<open>validateFlowTemplates\<close>

text \<open>The token pattern of validate.js, as its source has it: \<open>/\\$\\{([^}]+)\\}/g\<close>\<close>

definition usageTokenPattern :: "item list" where
  "usageTokenPattern =
     [Lit (CHR 0x5C), Eol, Lit (CHR 0x5C), Lit CHR ''{'',
      Cap (Chars True [(CHR ''}'', CHR ''}'')]) 1 None, Lit (CHR 0x5C), Lit CHR ''}'']"

definition validServices :: "string list" where
  "validServices = [''Lambda'', ''Queue'', ''Prompt'', ''Lex'', ''PhoneNumber'']"

definition validateTokenUsage :: "string \<Rightarrow> string \<Rightarrow> validator \<Rightarrow> validator" where
  "validateTokenUsage templateContent flowName v =
     fold (\<lambda>token v.
        let parts = str_split CHR ''.'' token;
            v = (if length parts < 2
                 then addError (''Invalid token format in '' @ flowName @ '': ${'' @ token
                        @ ''} (should be ${Service.Entity})'') v
                 else v);
            service = hd parts
        in if \<not> List.member validServices service
           then addWarning (''Unknown service in token '' @ flowName @ '': '' @ service) v
           else v) (captures usageTokenPattern templateContent) v"

fun indexOf :: "string \<Rightarrow> string \<Rightarrow> nat option" where
  "indexOf [] sub = (if sub = [] then Some 0 else None)"
| "indexOf (x # xs) sub =
     (if startsWith (x # xs) sub then Some 0 else map_option Suc (indexOf xs sub))"

definition validateFlowStructure :: "string \<Rightarrow> string \<Rightarrow> validator \<Rightarrow> validator" where
  "validateFlowStructure templateContent flowName v =
     (let v = fold (\<lambda>element v.
                if \<not> str_includes templateContent element
                then addWarning (''Flow '' @ flowName @ '' may be missing '' @ element @ '' block'') v
                else v) [''StartFlowExecution'', ''DisconnectParticipant''] v
      in if str_includes templateContent ''DisconnectParticipant'' \<and>
            (case indexOf templateContent ''DisconnectParticipant'' of None \<Rightarrow> True | Some i \<Rightarrow> i < 100)
         then addWarning (''Flow '' @ flowName @ '' may disconnect too early'') v
         else v)"

definition validateFlowDirectory :: "world \<Rightarrow> string \<Rightarrow> string \<Rightarrow> validator \<Rightarrow> validator" where
  "validateFlowDirectory w flowDir flowName v =
     (let templateFile = path_join w flowDir ''flow.json.tmpl''
      in if \<not> pathExists w templateFile
         then addError (''Flow template not found: '' @ flowName @ ''/flow.json.tmpl'') v
         else
           (case readFile w templateFile of
              Throws m \<Rightarrow> addError (''Failed to validate flow template '' @ flowName @ '': '' @ m) v
            | Returns templateContent \<Rightarrow>
                (case json_parse_error w templateContent of
                   None \<Rightarrow>
                     validateFlowStructure templateContent flowName
                       (validateTokenUsage templateContent flowName v)
                 | Some m \<Rightarrow>
                     if \<not> str_includes templateContent ''${''
                     then addError (''Invalid JSON in flow template '' @ flowName @ '': '' @ m) v
                     else validateFlowStructure templateContent flowName
                            (validateTokenUsage templateContent flowName v))))"

definition validateFlowTemplates :: "world \<Rightarrow> string \<Rightarrow> validator \<Rightarrow> validator \<times> unit outcome" where
  "validateFlowTemplates w flowsDir v =
     (if \<not> pathExists w flowsDir
      then (addError (''Flows directory not found: '' @ flowsDir) v, Returns ())
      else
        (case readdir w flowsDir of
           Throws m \<Rightarrow> (v, Throws m)
         | Returns dirEntries \<Rightarrow>
             (fold (\<lambda>(name, isDirectory) v.
                 if isDirectory then validateFlowDirectory w (path_join w flowsDir name) name v else v)
               dirEntries v, Returns ())))"

subsection \<open>validateTokenCompleteness\<close>

text \<open>\<open>tokens.add(match[1])\<close> on a \<open>Set\<close>, which keeps the order of first insertion.\<close>

definition set_add :: "string list \<Rightarrow> string \<Rightarrow> string list" where
  "set_add tokens t = (if List.member tokens t then tokens else tokens @ [t])"

fun collect_entries :: "world \<Rightarrow> string \<Rightarrow> (string \<times> bool) list \<Rightarrow> string list \<Rightarrow> string list outcome" where
  "collect_entries w flowsDir [] tokens = Returns tokens"
| "collect_entries w flowsDir ((name, isDirectory) # rest) tokens =
     (if isDirectory then
        (let flowDir = path_join w flowsDir name;
             templateFile = path_join w flowDir ''flow.json.tmpl''
         in if pathExists w templateFile
            then (case readFile w templateFile of
                    Throws m \<Rightarrow> Throws m
                  | Returns content \<Rightarrow>
                      collect_entries w flowsDir rest
                        (foldl set_add tokens (captures usageTokenPattern content)))
            else collect_entries w flowsDir rest tokens)
      else collect_entries w flowsDir rest tokens)"

definition collectUsedTokens :: "world \<Rightarrow> string \<Rightarrow> string list outcome" where
  "collectUsedTokens w flowsDir =
     (case readdir w flowsDir of
        Throws m \<Rightarrow> Throws m
      | Returns dirEntries \<Rightarrow> collect_entries w flowsDir dirEntries [])"

function flattenTokens :: "json \<Rightarrow> string \<Rightarrow> string list" where
  "flattenTokens tokens prefix =
     concat (map (\<lambda>(key, v).
        let fullKey = child_path prefix key
        in if typeof_object v \<and> v \<noteq> JNull then flattenTokens v fullKey else [fullKey])
      (entries tokens))"
  by pat_completeness auto
termination
proof (relation "measure (\<lambda>(t, p). size t)")
  fix tokens :: json and prefix :: string and x key v fullKey
  assume x: "x \<in> set (entries tokens)" "(key, v) = x" and o: "typeof_object v \<and> v \<noteq> JNull"
  have "size v < size tokens"
  proof (cases tokens)
    case (JObj kvs)
    with x show ?thesis using size_member [of key v kvs] by auto
  next
    case (JArr xs)
    with x have "v \<in> set xs" by (auto dest: set_zip_rightD)
    then have "size v < Suc (size_list size xs)" by (induction xs) auto
    with JArr show ?thesis by simp
  next
    case (JStr s)
    with x o show ?thesis by (auto dest!: set_zip_rightD)
  qed (use x in auto)
  then show "((v, fullKey), (tokens, prefix)) \<in> measure (\<lambda>(t, p). size t)" by simp
qed simp

declare flattenTokens.simps [simp del]

definition validateTokensInEnvironment :: "world \<Rightarrow> string \<Rightarrow> string list \<Rightarrow> string \<Rightarrow> validator \<Rightarrow> validator" where
  "validateTokensInEnvironment w envPath usedTokens envFile v =
     (let failed = (\<lambda>m. addError (''Failed to validate tokens in '' @ envFile @ '': '' @ m))
      in case readFile w envPath of
           Throws m \<Rightarrow> failed m v
         | Returns yamlContent \<Rightarrow>
        (case yaml_parse w yamlContent of
           Throws m \<Rightarrow> failed m v
         | Returns config \<Rightarrow>
        (case get_prop (Some config) ''tokens'' of
           Throws m \<Rightarrow> failed m v
         | Returns tokens \<Rightarrow>
             (let definedTokens =
                    flattenTokens (case tokens of None \<Rightarrow> JObj []
                                   | Some t \<Rightarrow> if truthy t then t else JObj []) []
              in fold (\<lambda>token v.
                   if \<not> List.member definedTokens token
                   then addError (''Token ${'' @ token @ ''} used in templates but not defined in ''
                          @ envFile) v
                   else v) usedTokens v))))"

definition validateTokenCompleteness :: "world \<Rightarrow> string \<Rightarrow> string \<Rightarrow> validator \<Rightarrow> validator \<times> unit outcome" where
  "validateTokenCompleteness w flowsDir envDir v =
     (case collectUsedTokens w flowsDir of
        Throws m \<Rightarrow> (v, Throws m)
      | Returns usedTokens \<Rightarrow>
          (fold (\<lambda>envFile v.
              let envPath = path_join w envDir envFile
              in if pathExists w envPath
                 then validateTokensInEnvironment w envPath usedTokens envFile v
                 else v) envFiles v, Returns ()))"

subsection \<open>validateAll\<close>

text \<open>
  The state is the validator after the call, whether it returned or threw;
  \<open>reportResults\<close> only prints.
\<close>

definition validateAll :: "world \<Rightarrow> string \<Rightarrow> string \<Rightarrow> validator \<Rightarrow> validator \<times> bool outcome" where
  "validateAll w flowsDir envDir v =
     (let v = validateEnvironmentConfigs w envDir v
      in case validateFlowTemplates w flowsDir v of
           (v, Throws m) \<Rightarrow> (v, Throws m)
         | (v, Returns u) \<Rightarrow>
        (case validateTokenCompleteness w flowsDir envDir v of
           (v, Throws m) \<Rightarrow> (v, Throws m)
         | (v, Returns u) \<Rightarrow> (v, Returns (length (errors v) = 0))))"

section \<open>Properties of the validator\<close>

subsection \<open>The token pattern of validate.js matches nothing\<close>

lemma match_here_usageTokenPattern: "match_here usageTokenPattern bol s = None"
proof (cases s)
  case Nil
  then show ?thesis by (simp add: usageTokenPattern_def)
next
  case (Cons x xs)
  then show ?thesis by (cases xs) (simp_all add: usageTokenPattern_def)
qed

lemma scan_no_match:
  assumes "\<And>bol s. match_here p bol s = None"
  shows "scan p bol s = map Text s"
proof (induction s arbitrary: bol)
  case Nil
  show ?case by (subst scan.simps) (simp add: assms)
next
  case (Cons c cs)
  show ?case by (subst scan.simps) (simp add: assms Cons)
qed

lemma captures_usageTokenPattern: "captures usageTokenPattern s = []"
proof -
  have "scan usageTokenPattern True s = map Text s"
    by (rule scan_no_match) (rule match_here_usageTokenPattern)
  then show ?thesis by (simp add: captures_def)
qed

lemma collect_entries_nothing:
  "collect_entries w flowsDir dirEntries tokens = Returns ts \<Longrightarrow> ts = tokens"
  by (induction w flowsDir dirEntries tokens rule: collect_entries.induct)
    (auto simp: captures_usageTokenPattern Let_def split: if_splits outcome.splits)

lemma collectUsedTokens_nothing: "collectUsedTokens w flowsDir = Returns ts \<Longrightarrow> ts = []"
  by (auto simp: collectUsedTokens_def split: outcome.splits dest: collect_entries_nothing)

lemma validateTokenUsage_nothing: "validateTokenUsage templateContent flowName v = v"
  by (simp add: validateTokenUsage_def captures_usageTokenPattern)

subsection \<open>The lists only grow\<close>

definition grows :: "validator \<Rightarrow> validator \<Rightarrow> bool" where
  "grows v v' = ((\<exists>es. errors v' = errors v @ es) \<and> (\<exists>ws. warnings v' = warnings v @ ws))"

lemma grows_refl [simp]: "grows v v"
  by (simp add: grows_def)

lemma grows_trans: "grows a b \<Longrightarrow> grows b c \<Longrightarrow> grows a c"
  by (auto simp: grows_def)

lemma grows_addError [simp]: "grows v (addError m v)"
  by (simp add: grows_def addError_def)

lemma grows_addWarning [simp]: "grows v (addWarning m v)"
  by (simp add: grows_def addWarning_def)

lemma grows_addError': "grows a b \<Longrightarrow> grows a (addError m b)"
  using grows_trans grows_addError by blast

lemma grows_addWarning': "grows a b \<Longrightarrow> grows a (addWarning m b)"
  using grows_trans grows_addWarning by blast

lemma grows_fold:
  assumes "\<And>x v. grows v (f x v)"
  shows "grows v (fold f xs v)"
proof (induction xs arbitrary: v)
  case Nil
  show ?case by simp
next
  case (Cons x xs)
  have "grows v (f x v)" by (rule assms)
  moreover have "grows (f x v) (fold f xs (f x v))" by (rule Cons.IH)
  ultimately show ?case using grows_trans by simp
qed

lemma grows_for_each:
  assumes "\<And>x v. grows v (fst (body x v))"
  shows "grows v (fst (for_each body xs v))"
proof (induction xs arbitrary: v)
  case Nil
  show ?case by simp
next
  case (Cons x xs)
  obtain v' r where b: "body x v = (v', r)" by (cases "body x v")
  have g: "grows v v'" using assms [of v x] b by simp
  show ?case
  proof (cases r)
    case (Throws m)
    with b g show ?thesis by simp
  next
    case (Returns u)
    with b have "for_each body (x # xs) v = for_each body xs v'" by simp
    with g Cons.IH [of v'] show ?thesis using grows_trans by simp
  qed
qed

lemma grows_checkArn: "grows v (checkArn region envPath arn context v)"
  by (auto simp: checkArn_def split: option.splits list.splits)

lemma grows_region_of_tokens: "grows v (fst (region_of_tokens region envPath tokenType tokens v))"
proof -
  have "grows v (fold (\<lambda>(tokenName, arn) v.
                 case arn of
                   JStr s \<Rightarrow> if startsWith s ''arn:aws:''
                             then checkArn region envPath s (tokenType @ ''.'' @ tokenName) v else v
                 | _ \<Rightarrow> v) (entries tokens) v)"
    by (rule grows_fold) (auto simp: grows_checkArn split: json.splits)
  then show ?thesis by (simp add: region_of_tokens_def)
qed

lemma grows_validateConsistentRegion: "grows v (fst (validateConsistentRegion config envPath v))"
proof -
  have "grows v (fst (for_each (\<lambda>(tokenType, tokens). region_of_tokens region envPath tokenType tokens) es v))"
    for region es
    by (rule grows_for_each) (auto simp: grows_region_of_tokens)
  then show ?thesis
    by (auto simp: validateConsistentRegion_def split: outcome.splits option.splits)
qed

lemma grows_checkConnectArn: "grows v (checkConnectArn instanceId envPath arn context v)"
  by (simp add: checkConnectArn_def)

lemma grows_instance_of_entry: "grows v (instance_of_entry instanceId envPath tokenType entry v)"
  by (auto simp: instance_of_entry_def grows_checkConnectArn split: prod.splits json.splits)

lemma grows_instance_of_tokens: "grows v (instance_of_tokens instanceId envPath tokens tokenType v)"
proof -
  have "grows v (fold (instance_of_entry instanceId envPath tokenType) es v)" for es
    by (rule grows_fold) (rule grows_instance_of_entry)
  then show ?thesis
    by (auto simp: instance_of_tokens_def split: outcome.splits option.splits)
qed

lemma grows_validateInstanceConsistency: "grows v (fst (validateInstanceConsistency config envPath v))"
proof -
  have "grows v (fold (instance_of_tokens instanceId envPath tokens) ts v)" for instanceId tokens ts
    by (rule grows_fold) (rule grows_instance_of_tokens)
  then show ?thesis
    by (auto simp: validateInstanceConsistency_def split: outcome.splits option.splits)
qed

lemma grows_validateEnvironmentConfig: "grows v (validateEnvironmentConfig w envPath v)"
proof (cases "readFile w envPath")
  case (Throws m)
  then show ?thesis by (simp add: validateEnvironmentConfig_def)
next
  case rf: (Returns yamlContent)
  show ?thesis
  proof (cases "yaml_parse w yamlContent")
    case (Throws m)
    with rf show ?thesis by (simp add: validateEnvironmentConfig_def)
  next
    case yp: (Returns config)
    show ?thesis
    proof (cases "schema_error w config")
      case (Some m)
      with rf yp show ?thesis by (simp add: validateEnvironmentConfig_def)
    next
      case None
      obtain v1 r1 where a: "validateConsistentRegion config envPath v = (v1, r1)"
        by (cases "validateConsistentRegion config envPath v")
      have g1: "grows v v1" using grows_validateConsistentRegion [of v config envPath] a by simp
      show ?thesis
      proof (cases r1)
        case (Throws m)
        with rf yp None a g1 show ?thesis
          by (simp add: validateEnvironmentConfig_def grows_addError')
      next
        case r1: (Returns u)
        obtain v2 r2 where b: "validateInstanceConsistency config envPath v1 = (v2, r2)"
          by (cases "validateInstanceConsistency config envPath v1")
        have "grows v1 v2" using grows_validateInstanceConsistency [of v1 config envPath] b by simp
        with g1 have g2: "grows v v2" by (rule grows_trans)
        with rf yp None a r1 b show ?thesis
          by (cases r2) (simp_all add: validateEnvironmentConfig_def grows_addError')
      qed
    qed
  qed
qed

lemma grows_validateEnvironmentConfigs: "grows v (validateEnvironmentConfigs w envDir v)"
  unfolding validateEnvironmentConfigs_def
  by (rule grows_fold) (simp add: Let_def grows_validateEnvironmentConfig)

lemma grows_validateFlowStructure: "grows v (validateFlowStructure templateContent flowName v)"
proof -
  let ?v = "fold (\<lambda>element v.
                if \<not> str_includes templateContent element
                then addWarning (''Flow '' @ flowName @ '' may be missing '' @ element @ '' block'') v
                else v) [''StartFlowExecution'', ''DisconnectParticipant''] v"
  have "grows v ?v" by (rule grows_fold) simp
  then show ?thesis
    unfolding validateFlowStructure_def Let_def
    by (auto intro: grows_addWarning' simp del: fold_simps)
qed

lemma grows_validateFlowDirectory: "grows v (validateFlowDirectory w flowDir flowName v)"
  unfolding validateFlowDirectory_def Let_def
  by (auto simp: validateTokenUsage_nothing grows_validateFlowStructure split: outcome.splits option.splits)

lemma grows_validateFlowTemplates: "grows v (fst (validateFlowTemplates w flowsDir v))"
proof -
  have "grows v (fold (\<lambda>(name, isDirectory) v.
                 if isDirectory then validateFlowDirectory w (path_join w flowsDir name) name v else v)
               es v)" for es
    by (rule grows_fold) (auto simp: grows_validateFlowDirectory)
  then show ?thesis
    by (auto simp: validateFlowTemplates_def split: outcome.splits)
qed

lemma grows_validateTokensInEnvironment:
  "grows v (validateTokensInEnvironment w envPath usedTokens envFile v)"
proof -
  have "grows v (fold (\<lambda>token v.
                   if \<not> List.member definedTokens token
                   then addError (''Token ${'' @ token @ ''} used in templates but not defined in ''
                          @ envFile) v
                   else v) usedTokens v)" for definedTokens
    by (rule grows_fold) simp
  then show ?thesis
    unfolding validateTokensInEnvironment_def Let_def
    by (auto split: outcome.splits)
qed

lemma grows_validateTokenCompleteness: "grows v (fst (validateTokenCompleteness w flowsDir envDir v))"
proof -
  have "grows v (fold (\<lambda>envFile v.
              let envPath = path_join w envDir envFile
              in if pathExists w envPath
                 then validateTokensInEnvironment w envPath usedTokens envFile v
                 else v) envFiles v)" for usedTokens
    by (rule grows_fold) (simp add: Let_def grows_validateTokensInEnvironment)
  then show ?thesis
    by (auto simp: validateTokenCompleteness_def split: outcome.splits)
qed

lemma grows_validateAll: "grows v (fst (validateAll w flowsDir envDir v))"
proof -
  let ?v1 = "validateEnvironmentConfigs w envDir v"
  obtain v2 r2 where a: "validateFlowTemplates w flowsDir ?v1 = (v2, r2)"
    by (cases "validateFlowTemplates w flowsDir ?v1")
  obtain v3 r3 where b: "validateTokenCompleteness w flowsDir envDir v2 = (v3, r3)"
    by (cases "validateTokenCompleteness w flowsDir envDir v2")
  have g1: "grows v ?v1" by (rule grows_validateEnvironmentConfigs)
  have "grows ?v1 v2" using grows_validateFlowTemplates [of ?v1 w flowsDir] a by simp
  with g1 have g2: "grows v v2" by (rule grows_trans)
  have "grows v2 v3" using grows_validateTokenCompleteness [of v2 w flowsDir envDir] b by simp
  with g2 have g3: "grows v v3" by (rule grows_trans)
  show ?thesis
    using a b g2 g3 by (cases r2; cases r3) (simp_all add: validateAll_def)
qed

lemma validateAll_result:
  "snd (validateAll w flowsDir envDir v) = Returns b \<Longrightarrow>
   b = (errors (fst (validateAll w flowsDir envDir v)) = [])"
  unfolding validateAll_def Let_def
  by (auto split: prod.splits outcome.splits)

text \<open>
  C10. Every operation of a validator leaves the entries of \<open>errors\<close> and \<open>warnings\<close> in
  place and only appends to them, \<open>validateAll\<close> included; so on a validator that
  already holds an error \<open>validateAll\<close> never returns \<open>true\<close>, whatever it is run on.
\<close>

theorem validator_lists_only_grow:
  "grows v (addError message v) \<and> grows v (addWarning message v) \<and>
   grows v (validateEnvironmentConfigs w envDir v) \<and>
   grows v (fst (validateFlowTemplates w flowsDir v)) \<and>
   grows v (fst (validateTokenCompleteness w flowsDir envDir v)) \<and>
   grows v (fst (validateAll w flowsDir envDir v)) \<and>
   (errors v \<noteq> [] \<longrightarrow> snd (validateAll w flowsDir envDir v) \<noteq> Returns True)"
proof -
  have "snd (validateAll w flowsDir envDir v) \<noteq> Returns True" if ne: "errors v \<noteq> []"
  proof
    assume "snd (validateAll w flowsDir envDir v) = Returns True"
    then have "errors (fst (validateAll w flowsDir envDir v)) = []"
      using validateAll_result by blast
    moreover from grows_validateAll [of v w flowsDir envDir]
    obtain es where "errors (fst (validateAll w flowsDir envDir v)) = errors v @ es"
      by (auto simp: grows_def)
    ultimately show False using ne by simp
  qed
  then show ?thesis
    by (simp add: grows_validateEnvironmentConfigs grows_validateFlowTemplates
        grows_validateTokenCompleteness grows_validateAll)
qed

subsection \<open>A repository whose template uses a token that no environment defines\<close>

definition sample_config :: json where
  "sample_config = JObj
     [(''connect'', JObj
        [(''instance_id'', JStr ''12345678-1234-1234-1234-123456789012''),
         (''instance_arn'', JStr ''arn:aws:connect:us-east-1:123456789012:instance/12345678-1234-1234-1234-123456789012''),
         (''region'', JStr ''us-east-1'')]),
      (''tokens'', JObj
        [(''Queue'', JObj
           [(''Sales'', JStr ''arn:aws:connect:us-east-1:123456789012:instance/12345678-1234-1234-1234-123456789012/queue/sales'')])])]"

definition sample_template :: string where
  "sample_template = ''{ StartFlowExecution: ${Queue.NewQueue}, then: DisconnectParticipant }''"

definition sample_world :: world where
  "sample_world =
     \<lparr>path_join = (\<lambda>dir name. dir @ ''/'' @ name),
      pathExists = (\<lambda>p. List.member [''flows'', ''flows/Sales'', ''flows/Sales/flow.json.tmpl'',
                     ''env/dev.yaml'', ''env/test.yaml'', ''env/prod.yaml''] p),
      readFile = (\<lambda>p. if p = ''flows/Sales/flow.json.tmpl'' then Returns sample_template
                      else if List.member [''env/dev.yaml'', ''env/test.yaml'', ''env/prod.yaml''] p
                      then Returns ''config'' else Throws ''ENOENT''),
      readdir = (\<lambda>p. if p = ''flows'' then Returns [(''Sales'', True)] else Throws ''ENOENT''),
      yaml_parse = (\<lambda>content. if content = ''config'' then Returns sample_config else Throws ''YAMLParseError''),
      schema_error = (\<lambda>config. None),
      json_parse_error = (\<lambda>content. Some ''Unexpected token'')\<rparr>"

text \<open>
  C2 does not hold of the code. The template of this repository uses
  \<open>${Queue.NewQueue}\<close>, which no environment defines: \<open>render\<close> throws on it, but
  \<open>validateAll\<close> records no error and returns \<open>true\<close>. The pattern that is to find the
  tokens is written with doubled backslashes, \<open>/\\$\\{([^}]+)\\}/g\<close>: a backslash, the
  end of the input, and more characters after it. It matches nothing
  (\<open>captures_usageTokenPattern\<close>), so no template is ever seen to use a token.
\<close>

theorem token_completeness_reports_nothing:
  "validateAll sample_world ''flows'' ''env'' new_validator
     = (\<lparr>errors = [], warnings = [''Flow Sales may disconnect too early'']\<rparr>, Returns True) \<and>
   collectUsedTokens sample_world ''flows'' = Returns [] \<and>
   render sample_runtime sample_config sample_template = Inl (TokenNotFound ''Queue.NewQueue'')"
  by code_simp

text \<open>
  C10 at the repository above: a new validator passes it; a validator that already
  holds an error does not, on the same files.
\<close>

theorem validator_lists_only_grow_witness:
  "snd (validateAll sample_world ''flows'' ''env'' new_validator) = Returns True \<and>
   snd (validateAll sample_world ''flows'' ''env'' (addError ''earlier'' new_validator)) \<noteq> Returns True \<and>
   grows (addError ''earlier'' new_validator)
     (fst (validateAll sample_world ''flows'' ''env'' (addError ''earlier'' new_validator)))"
proof -
  have e: "errors (addError ''earlier'' new_validator) \<noteq> []" by (simp add: addError_def)
  have p: "snd (validateAll sample_world ''flows'' ''env'' new_validator) = Returns True" by code_simp
  from validator_lists_only_grow [of "addError ''earlier'' new_validator" "[]" sample_world "''env''" "''flows''"]
    e p show ?thesis by simp
qed

subsection \<open>Instance consistency\<close>

text \<open>
  The ARNs that \<open>validateInstanceConsistency\<close> looks at, each with its token path: the
  string values under \<open>Queue\<close>, \<open>Prompt\<close> and \<open>Lex\<close> that contain \<open>arn:aws:connect:\<close>.
  It reports those that contain \<open>/instance/\<close> but not \<open>/instance/\<close> followed by the
  configured instance id.
\<close>

definition entry_arns :: "string \<Rightarrow> string \<times> json \<Rightarrow> (string \<times> string) list" where
  "entry_arns tokenType entry =
     (case entry of (tokenName, arn) \<Rightarrow>
        (case arn of
           JStr s \<Rightarrow> if str_includes s ''arn:aws:connect:'' then [(tokenType @ ''.'' @ tokenName, s)] else []
         | _ \<Rightarrow> []))"

definition type_arns :: "json \<Rightarrow> string \<Rightarrow> (string \<times> string) list" where
  "type_arns tokens tokenType =
     (case get_prop (Some tokens) tokenType of
        Returns (Some typed) \<Rightarrow>
          if truthy typed then concat (map (entry_arns tokenType) (entries typed)) else []
      | _ \<Rightarrow> [])"

definition connect_arns :: "json \<Rightarrow> (string \<times> string) list" where
  "connect_arns tokens = concat (map (type_arns tokens) connectTokenTypes)"

definition mismatched :: "json option \<Rightarrow> string \<times> string \<Rightarrow> bool" where
  "mismatched instanceId found =
     (str_includes (snd found) ''/instance/'' \<and>
      \<not> str_includes (snd found) (''/instance/'' @ text_opt instanceId))"

definition mismatches :: "json option \<Rightarrow> json \<Rightarrow> (string \<times> string) list" where
  "mismatches instanceId tokens = filter (mismatched instanceId) (connect_arns tokens)"

definition add_mismatches :: "string \<Rightarrow> (string \<times> string) list \<Rightarrow> validator \<Rightarrow> validator" where
  "add_mismatches envPath found v =
     v\<lparr>errors := errors v @ map (\<lambda>f. mismatch_message envPath (fst f)) found\<rparr>"

lemma add_mismatches_Nil: "add_mismatches envPath [] v = v"
  by (simp add: add_mismatches_def)

lemma add_mismatches_append:
  "add_mismatches envPath (xs @ ys) v = add_mismatches envPath ys (add_mismatches envPath xs v)"
  by (simp add: add_mismatches_def)

lemma fold_add_mismatches:
  assumes "\<And>x v. f x v = add_mismatches envPath (filter P (g x)) v"
  shows "fold f xs v = add_mismatches envPath (filter P (concat (map g xs))) v"
proof (induction xs arbitrary: v)
  case Nil
  show ?case by (simp add: add_mismatches_Nil)
next
  case (Cons x xs)
  have "fold f (x # xs) v = fold f xs (f x v)" by simp
  also have "\<dots> = add_mismatches envPath (filter P (concat (map g xs))) (f x v)"
    by (rule Cons.IH)
  also have "f x v = add_mismatches envPath (filter P (g x)) v" by (rule assms)
  also have "add_mismatches envPath (filter P (concat (map g xs))) (add_mismatches envPath (filter P (g x)) v)
      = add_mismatches envPath (filter P (g x) @ filter P (concat (map g xs))) v"
    by (rule add_mismatches_append [symmetric])
  also have "filter P (g x) @ filter P (concat (map g xs)) = filter P (concat (map g (x # xs)))"
    by simp
  finally show ?case .
qed

lemma instance_of_entry_eq:
  "instance_of_entry instanceId envPath tokenType entry v
   = add_mismatches envPath (filter (mismatched instanceId) (entry_arns tokenType entry)) v"
proof -
  obtain tokenName arn where e: "entry = (tokenName, arn)" by (cases entry)
  show ?thesis
  proof (cases arn)
    case (JStr s)
    then show ?thesis
      unfolding e instance_of_entry_def entry_arns_def
      by (simp add: checkConnectArn_def mismatched_def add_mismatches_def addError_def)
  qed (simp_all add: e instance_of_entry_def entry_arns_def add_mismatches_Nil)
qed

lemma instance_of_tokens_eq:
  "instance_of_tokens instanceId envPath tokens tokenType v
   = add_mismatches envPath (filter (mismatched instanceId) (type_arns tokens tokenType)) v"
proof -
  have "fold (instance_of_entry instanceId envPath tokenType) es v
      = add_mismatches envPath (filter (mismatched instanceId) (concat (map (entry_arns tokenType) es))) v"
    for es
    by (rule fold_add_mismatches) (rule instance_of_entry_eq)
  then show ?thesis
    unfolding instance_of_tokens_def type_arns_def
    by (simp add: add_mismatches_Nil split: outcome.splits option.splits)
qed

lemma validateInstanceConsistency_eq:
  assumes "get_prop (Some config) ''connect'' = Returns connect"
    and "get_prop connect ''instance_id'' = Returns instanceId"
    and "get_prop (Some config) ''tokens'' = Returns (Some tokens)" and "truthy tokens"
  shows "validateInstanceConsistency config envPath v
       = (add_mismatches envPath (mismatches instanceId tokens) v, Returns ())"
proof -
  have "fold (instance_of_tokens instanceId envPath tokens) connectTokenTypes v
      = add_mismatches envPath (mismatches instanceId tokens) v"
    unfolding mismatches_def connect_arns_def
    by (rule fold_add_mismatches) (rule instance_of_tokens_eq)
  with assms show ?thesis
    by (simp add: validateInstanceConsistency_def)
qed

subsection \<open>An environment whose Queue ARN names another instance\<close>

text \<open>
  The environment of the repository's tests, with the Queue ARN written in the form the
  repository documents, \<open>arn:aws:connect:${region}:${account}:instance/${instance-id}/...\<close>,
  for an instance other than \<open>connect.instance_id\<close>.
\<close>

definition mismatch_config :: json where
  "mismatch_config = JObj
     [(''connect'', JObj
        [(''instance_id'', JStr ''12345678-1234-1234-1234-123456789012''),
         (''instance_arn'', JStr ''arn:aws:connect:us-east-1:123456789012:instance/12345678-1234-1234-1234-123456789012''),
         (''region'', JStr ''us-east-1'')]),
      (''tokens'', JObj
        [(''Queue'', JObj
           [(''Sales'', JStr ''arn:aws:connect:us-east-1:123456789012:instance/87654321-4321-4321-4321-876543218765/queue/sales'')])])]"

definition mismatch_world :: world where
  "mismatch_world =
     \<lparr>path_join = (\<lambda>dir name. dir @ ''/'' @ name),
      pathExists = (\<lambda>p. List.member [''flows'', ''env/dev.yaml'', ''env/test.yaml'', ''env/prod.yaml''] p),
      readFile = (\<lambda>p. if p = ''env/test.yaml'' then Returns ''mismatch''
                      else if List.member [''env/dev.yaml'', ''env/prod.yaml''] p then Returns ''config''
                      else Throws ''ENOENT''),
      readdir = (\<lambda>p. if p = ''flows'' then Returns [] else Throws ''ENOENT''),
      yaml_parse = (\<lambda>content. if content = ''mismatch'' then Returns mismatch_config
                      else if content = ''config'' then Returns sample_config
                      else Throws ''YAMLParseError''),
      schema_error = (\<lambda>config. None),
      json_parse_error = (\<lambda>content. Some ''Unexpected token'')\<rparr>"

text \<open>
  C8. An environment map with exactly one Connect ARN, the token \<open>Queue.Sales\<close>, whose
  \<open>instance/<id>/\<close> segment carries an instance id different from \<open>connect.instance_id\<close>,
  should make validation record exactly one instance-mismatch error naming \<open>Queue.Sales\<close> and
  fail. The program tests \<open>arn.includes('/instance/')\<close>, and in a Connect ARN the segment
  follows a colon, not a slash: the ARN is not a mismatch for \<open>checkConnectArn\<close>, no error is
  recorded for the file, and \<open>validateAll\<close> returns true.
\<close>

theorem instance_mismatch_not_reported:
  "mismatches (Some (JStr ''12345678-1234-1234-1234-123456789012''))
     (JObj [(''Queue'', JObj [(''Sales'',
        JStr ''arn:aws:connect:us-east-1:123456789012:instance/87654321-4321-4321-4321-876543218765/queue/sales'')])]) = []
   \<and> validateEnvironmentConfig mismatch_world ''env/test.yaml'' new_validator = new_validator
   \<and> validateAll mismatch_world ''flows'' ''env'' new_validator = (new_validator, Returns True)"
  by code_simp

section \<open>The deployment handler (cdk/lib/connect-flow-stack.js)\<close>

text \<open>
  The handler of the custom resource talks to Amazon Connect and to Lambda through the
  AWS SDK. A request is the client, the operation called on it and the parameters; the
  run of a handler records the requests in the order they are made. What the services
  answer, the clock and the process environment are parameters of the model: an answer
  may depend on all the requests made before. Console output is not modelled.
\<close>

datatype param = Arg "json option" | Args "(string \<times> param) list"

record request =
  client :: string
  operation :: string
  params :: "(string \<times> param) list"

record host =
  service :: "request list \<Rightarrow> request \<Rightarrow> json option outcome"
  clock :: "nat \<Rightarrow> int"
  toISOString :: "int \<Rightarrow> string"
  process_env :: "string \<Rightarrow> string option"

record run =
  calls :: "request list"
  reads :: nat

text \<open>\<open>await client.operation(params).promise()\<close>\<close>

definition send :: "host \<Rightarrow> request \<Rightarrow> run \<Rightarrow> run \<times> json option outcome" where
  "send h q r = (r\<lparr>calls := calls r @ [q]\<rparr>, service h (calls r) q)"

text \<open>\<open>Date.now()\<close>, \<open>new Date().getTime()\<close>\<close>

definition now :: "host \<Rightarrow> run \<Rightarrow> run \<times> int" where
  "now h r = (r\<lparr>reads := Suc (reads r)\<rparr>, clock h (reads r))"

text \<open>\<open>value.split(sep)\<close>: a TypeError on anything but a string.\<close>

fun split_of :: "json option \<Rightarrow> char \<Rightarrow> string list outcome" where
  "split_of (Some (JStr s)) sep = Returns (str_split sep s)"
| "split_of v sep = Throws type_error"

text \<open>\<open>for (const x of value)\<close>: arrays and strings are iterable, nothing else is.\<close>

fun iterable :: "json option \<Rightarrow> json list outcome" where
  "iterable (Some (JArr xs)) = Returns xs"
| "iterable (Some (JStr s)) = Returns (map (\<lambda>c. JStr [c]) s)"
| "iterable v = Throws type_error"

text \<open>\<open>process.env.NAME\<close> in a template literal\<close>

definition env_text :: "host \<Rightarrow> string \<Rightarrow> string" where
  "env_text h name = (case process_env h name of None \<Rightarrow> ''undefined'' | Some s \<Rightarrow> s)"

text \<open>\<open>a || 'unknown'\<close>\<close>

definition or_unknown :: "json option \<Rightarrow> json option" where
  "or_unknown a = (if truthy_opt a then a else Some (JStr ''unknown''))"

subsection \<open>setupLambdaPermissions\<close>

text \<open>
  The body of the loop: every exception in it is caught and the loop goes on.
\<close>

definition addPermission_request :: "json option \<Rightarrow> string \<Rightarrow> json option \<Rightarrow> request" where
  "addPermission_request functionName statementId instanceArn =
     \<lparr>client = ''lambda'', operation = ''addPermission'',
      params = [(''FunctionName'', Arg functionName),
                (''StatementId'', Arg (Some (JStr statementId))),
                (''Action'', Arg (Some (JStr ''lambda:InvokeFunction''))),
                (''Principal'', Arg (Some (JStr ''connect.amazonaws.com''))),
                (''SourceArn'', Arg instanceArn)]\<rparr>"

definition addPermission_for :: "host \<Rightarrow> json option \<Rightarrow> json \<Rightarrow> run \<Rightarrow> run" where
  "addPermission_for h instanceArn lambdaArn r =
     (case split_of (Some lambdaArn) CHR '':'' of
        Throws m \<Rightarrow> r
      | Returns parts \<Rightarrow>
          (let functionName = (if 6 < length parts then Some (JStr (parts ! 6)) else None);
               (r1, t) = now h r;
               statementId = ''connect-invoke-'' @ show_int t
           in fst (send h (addPermission_request functionName statementId instanceArn) r1)))"

definition setupLambdaPermissions :: "host \<Rightarrow> json option \<Rightarrow> json option \<Rightarrow> run \<Rightarrow> run \<times> unit outcome" where
  "setupLambdaPermissions h lambdaArns instanceArn r =
     (case iterable lambdaArns of
        Throws m \<Rightarrow> (r, Throws m)
      | Returns arns \<Rightarrow> (fold (addPermission_for h instanceArn) arns r, Returns ()))"

subsection \<open>handleCreate\<close>

definition createContactFlow_request :: "host \<Rightarrow> json option \<Rightarrow> string \<Rightarrow> json option
    \<Rightarrow> json option \<Rightarrow> int \<Rightarrow> request" where
  "createContactFlow_request h instanceId versionedName flowContent releaseTag deployedAt =
     \<lparr>client = ''connect'', operation = ''createContactFlow'',
      params = [(''InstanceId'', Arg instanceId),
                (''Name'', Arg (Some (JStr versionedName))),
                (''Type'', Arg (Some (JStr ''CONTACT_FLOW''))),
                (''Content'', Arg flowContent),
                (''Description'', Arg (Some (JStr (''Deployed via CDK - Release: ''
                    @ text_opt (or_unknown releaseTag))))),
                (''Tags'', Args
                   [(''Environment'', Arg (or_unknown (map_option JStr (process_env h ''ENVIRONMENT'')))),
                    (''DeployedBy'', Arg (Some (JStr ''CDK''))),
                    (''ReleaseTag'', Arg (or_unknown releaseTag)),
                    (''DeployedAt'', Arg (Some (JStr (toISOString h deployedAt))))])]\<rparr>"

text \<open>\<open>releaseTag || new Date().getTime()\<close> in the versioned name: the clock is read only
  if there is no release tag.\<close>

definition version_suffix :: "host \<Rightarrow> json option \<Rightarrow> run \<Rightarrow> run \<times> string" where
  "version_suffix h releaseTag r =
     (if truthy_opt releaseTag then (r, text_opt releaseTag)
      else (let (r1, t) = now h r in (r1, show_int t)))"

definition handleCreate :: "host \<Rightarrow> json option \<Rightarrow> json option \<Rightarrow> json option \<Rightarrow> json option
    \<Rightarrow> json option \<Rightarrow> json option \<Rightarrow> run \<Rightarrow> run \<times> json option outcome" where
  "handleCreate h flowName flowContent instanceId instanceArn lambdaArns releaseTag r =
     (case setupLambdaPermissions h lambdaArns instanceArn r of
        (r1, Throws m) \<Rightarrow> (r1, Throws m)
      | (r1, Returns u) \<Rightarrow>
          (let (r2, suffix) = version_suffix h releaseTag r1;
               versionedName = text_opt flowName @ ''-'' @ suffix;
               (r3, deployedAt) = now h r2
           in case send h (createContactFlow_request h instanceId versionedName flowContent
                             releaseTag deployedAt) r3
              of
                (r4, Throws m) \<Rightarrow> (r4, Throws m)
              | (r4, Returns result) \<Rightarrow>
                  (case get_prop result ''ContactFlowArn'' of
                     Throws m \<Rightarrow> (r4, Throws m)
                   | Returns arn \<Rightarrow> (r4, Returns arn))))"

subsection \<open>handleUpdate\<close>

text \<open>\<open>parts[0]\<close> and \<open>parts.pop()\<close> of the result of a split\<close>

definition first_part :: "string list \<Rightarrow> json option" where
  "first_part parts = (case parts of [] \<Rightarrow> None | part # _ \<Rightarrow> Some (JStr part))"

definition last_part :: "string list \<Rightarrow> json option" where
  "last_part parts = first_part (rev parts)"

definition updateContactFlowContent_request :: "json option \<Rightarrow> json option \<Rightarrow> json option \<Rightarrow> request" where
  "updateContactFlowContent_request instanceId contactFlowId flowContent =
     \<lparr>client = ''connect'', operation = ''updateContactFlowContent'',
      params = [(''InstanceId'', Arg instanceId),
                (''ContactFlowId'', Arg contactFlowId),
                (''Content'', Arg flowContent)]\<rparr>"

definition handleUpdate :: "host \<Rightarrow> json option \<Rightarrow> json option \<Rightarrow> json option \<Rightarrow> json option
    \<Rightarrow> json option \<Rightarrow> json option \<Rightarrow> json option \<Rightarrow> run \<Rightarrow> run \<times> json option outcome" where
  "handleUpdate h contactFlowArn flowName flowContent instanceId lambdaArns blueGreenDeployment releaseTag r =
     (case setupLambdaPermissions h lambdaArns
             (Some (JStr (''arn:aws:connect:'' @ env_text h ''AWS_REGION'' @ '':''
                @ env_text h ''AWS_ACCOUNT_ID'' @ '':instance/'' @ text_opt instanceId))) r of
        (r1, Throws m) \<Rightarrow> (r1, Throws m)
      | (r1, Returns u) \<Rightarrow>
          if truthy_opt blueGreenDeployment
          then
            (case split_of contactFlowArn CHR ''/'' of
               Throws m \<Rightarrow> (r1, Throws m)
             | Returns parts \<Rightarrow>
                 handleCreate h flowName flowContent instanceId (first_part parts)
                   lambdaArns releaseTag r1)
          else
            (case split_of contactFlowArn CHR ''/'' of
               Throws m \<Rightarrow> (r1, Throws m)
             | Returns parts \<Rightarrow>
                 (case send h (updateContactFlowContent_request instanceId (last_part parts)
                                 flowContent) r1
                  of
                    (r2, Throws m) \<Rightarrow> (r2, Throws m)
                  | (r2, Returns result) \<Rightarrow> (r2, Returns None))))"

subsection \<open>handleDelete\<close>

text \<open>
  Every exception after the first test is caught and logged. The call
  \<open>connect.deleteContactFlow(params)\<close> is commented out in the source: a flow that is
  not \<open>ACTIVE\<close> is logged as skipped, and the function returns.
\<close>

definition describeContactFlow_request :: "json option \<Rightarrow> json option \<Rightarrow> request" where
  "describeContactFlow_request instanceId contactFlowId =
     \<lparr>client = ''connect'', operation = ''describeContactFlow'',
      params = [(''InstanceId'', Arg instanceId), (''ContactFlowId'', Arg contactFlowId)]\<rparr>"

definition handleDelete :: "host \<Rightarrow> json option \<Rightarrow> json option \<Rightarrow> run \<Rightarrow> run" where
  "handleDelete h contactFlowArn instanceId r =
     (if \<not> truthy_opt contactFlowArn \<or> contactFlowArn = Some (JStr ''failed'') then r
      else
        (case split_of contactFlowArn CHR ''/'' of
           Throws m \<Rightarrow> r
         | Returns parts \<Rightarrow>
             (case send h (describeContactFlow_request instanceId (last_part parts)) r of
                (r1, Throws m) \<Rightarrow> r1
              | (r1, Returns flowInfo) \<Rightarrow>
                  (case get_prop flowInfo ''ContactFlow'' of
                     Throws m \<Rightarrow> r1
                   | Returns contactFlow \<Rightarrow>
                       (case get_prop contactFlow ''State'' of
                          Throws m \<Rightarrow> r1
                        | Returns state \<Rightarrow>
                            if state = Some (JStr ''ACTIVE'') then r1 else r1)))))"

subsection \<open>handler\<close>

text \<open>
  The response of the handler: \<open>SUCCESS\<close> with the physical resource id and the data, or
  \<open>FAILED\<close> with the physical resource id and the reason. The two destructuring
  assignments stand before the \<open>try\<close>: an event without \<open>ResourceProperties\<close> makes the
  handler throw.
\<close>

datatype response =
    SUCCESS "json option" "(string \<times> json option) list"
  | FAILED "json option" string

definition read_prop :: "json option \<Rightarrow> string \<Rightarrow> json option" where
  "read_prop object key = (case get_prop object key of Throws m \<Rightarrow> None | Returns v \<Rightarrow> v)"

definition handler :: "host \<Rightarrow> json \<Rightarrow> run \<Rightarrow> run \<times> response outcome" where
  "handler h event r =
     (case get_prop (Some event) ''ResourceProperties'' of
        Throws m \<Rightarrow> (r, Throws m)
      | Returns ResourceProperties \<Rightarrow>
     (case get_prop ResourceProperties ''FlowName'' of
        Throws m \<Rightarrow> (r, Throws m)
      | Returns FlowName \<Rightarrow>
          (let RequestType = read_prop (Some event) ''RequestType'';
               PhysicalResourceId = read_prop (Some event) ''PhysicalResourceId'';
               FlowContent = read_prop ResourceProperties ''FlowContent'';
               InstanceId = read_prop ResourceProperties ''InstanceId'';
               InstanceArn = read_prop ResourceProperties ''InstanceArn'';
               BlueGreenDeployment = read_prop ResourceProperties ''BlueGreenDeployment'';
               LambdaArns = read_prop ResourceProperties ''LambdaArns'';
               ReleaseTag = read_prop ResourceProperties ''ReleaseTag'';
               failed = (\<lambda>m. Returns (FAILED (if truthy_opt PhysicalResourceId then PhysicalResourceId
                                                else Some (JStr ''failed'')) m))
           in if RequestType = Some (JStr ''Create'') then
                (case handleCreate h FlowName FlowContent InstanceId InstanceArn LambdaArns ReleaseTag r of
                   (r1, Throws m) \<Rightarrow> (r1, failed m)
                 | (r1, Returns arn) \<Rightarrow>
                     (r1, Returns (SUCCESS arn [(''ContactFlowArn'', arn), (''FlowName'', FlowName)])))
              else if RequestType = Some (JStr ''Update'') then
                (case handleUpdate h PhysicalResourceId FlowName FlowContent InstanceId LambdaArns
                        BlueGreenDeployment ReleaseTag r of
                   (r1, Throws m) \<Rightarrow> (r1, failed m)
                 | (r1, Returns result) \<Rightarrow>
                     (r1, Returns (SUCCESS PhysicalResourceId
                        [(''ContactFlowArn'', PhysicalResourceId), (''FlowName'', FlowName)])))
              else if RequestType = Some (JStr ''Delete'') then
                ((if \<not> truthy_opt BlueGreenDeployment
                  then handleDelete h PhysicalResourceId InstanceId r
                  else r),
                 Returns (SUCCESS PhysicalResourceId []))
              else (r, Returns (SUCCESS None [])))))"

subsection \<open>The requests of a run\<close>

text \<open>
  The requests made between two states of a run, and the property that the later state
  has the requests of the earlier one, in place, followed by requests for the listed
  operations only.
\<close>

definition issued :: "run \<Rightarrow> run \<Rightarrow> request list" where
  "issued r r' = drop (length (calls r)) (calls r')"

definition extends_by :: "string list \<Rightarrow> run \<Rightarrow> run \<Rightarrow> bool" where
  "extends_by ops r r' =
     (take (length (calls r)) (calls r') = calls r \<and>
      list_all (\<lambda>q. operation q \<in> set ops) (issued r r'))"

lemma extends_by_iff:
  "extends_by ops r r' \<longleftrightarrow> (\<exists>new. calls r' = calls r @ new \<and> operation ` set new \<subseteq> set ops)"
proof
  assume e: "extends_by ops r r'"
  have "calls r' = take (length (calls r)) (calls r') @ issued r r'"
    by (simp add: issued_def)
  with e have "calls r' = calls r @ issued r r'" by (simp add: extends_by_def)
  moreover from e have "operation ` set (issued r r') \<subseteq> set ops"
    by (auto simp: extends_by_def list_all_iff)
  ultimately show "\<exists>new. calls r' = calls r @ new \<and> operation ` set new \<subseteq> set ops" by blast
next
  assume "\<exists>new. calls r' = calls r @ new \<and> operation ` set new \<subseteq> set ops"
  then obtain new where "calls r' = calls r @ new" and "operation ` set new \<subseteq> set ops" by blast
  then show "extends_by ops r r'"
    by (auto simp: extends_by_def issued_def list_all_iff)
qed

lemma extends_by_same: "calls r' = calls r \<Longrightarrow> extends_by ops r r'"
  by (simp add: extends_by_def issued_def)

lemma extends_by_trans:
  assumes "extends_by ops r r1" and "extends_by ops r1 r2"
  shows "extends_by ops r r2"
proof -
  from assms obtain a b where "calls r1 = calls r @ a" "operation ` set a \<subseteq> set ops"
    "calls r2 = calls r1 @ b" "operation ` set b \<subseteq> set ops"
    unfolding extends_by_iff by blast
  then have "calls r2 = calls r @ (a @ b)" "operation ` set (a @ b) \<subseteq> set ops" by auto
  then show ?thesis unfolding extends_by_iff by blast
qed

lemma extends_by_mono:
  assumes "extends_by ops r r'" and "set ops \<subseteq> set ops'"
  shows "extends_by ops' r r'"
  using assms unfolding extends_by_iff by blast

lemma extends_by_send:
  assumes "operation q \<in> set ops"
  shows "extends_by ops r (fst (send h q r))"
  unfolding extends_by_iff using assms by (simp add: send_def)

lemma calls_now: "calls (fst (now h r)) = calls r"
  by (simp add: now_def)

lemma issued_send: "issued r (fst (send h q r)) = [q]"
  by (simp add: issued_def send_def)

lemma issued_same: "issued r r = []"
  by (simp add: issued_def)

lemma extends_by_addPermission_for:
  "extends_by [''addPermission''] r (addPermission_for h instanceArn lambdaArn r)"
proof (cases "split_of (Some lambdaArn) CHR '':''")
  case (Throws m)
  then show ?thesis by (simp add: addPermission_for_def extends_by_same)
next
  case (Returns parts)
  obtain r1 t where n: "now h r = (r1, t)" by (cases "now h r")
  then have c: "calls r1 = calls r" using calls_now [of h r] by simp
  have "extends_by [''addPermission''] r r1" using c by (rule extends_by_same)
  moreover have "extends_by [''addPermission''] r1
      (fst (send h (addPermission_request functionName statementId instanceArn) r1))"
    for functionName statementId
    by (rule extends_by_send) (simp add: addPermission_request_def)
  ultimately have "extends_by [''addPermission''] r
      (fst (send h (addPermission_request functionName statementId instanceArn) r1))"
    for functionName statementId
    by (blast intro: extends_by_trans)
  then show ?thesis
    unfolding addPermission_for_def Returns
    by (simp add: n Let_def)
qed

lemma extends_by_fold:
  assumes "\<And>x r. extends_by ops r (f x r)"
  shows "extends_by ops r (fold f xs r)"
proof (induction xs arbitrary: r)
  case Nil
  show ?case by (simp add: extends_by_same)
next
  case (Cons x xs)
  have "extends_by ops r (f x r)" by (rule assms)
  moreover have "extends_by ops (f x r) (fold f xs (f x r))" by (rule Cons.IH)
  ultimately show ?case by (simp add: extends_by_trans)
qed

lemma extends_by_setupLambdaPermissions:
  "extends_by [''addPermission''] r (fst (setupLambdaPermissions h lambdaArns instanceArn r))"
proof (cases "iterable lambdaArns")
  case (Throws m)
  then show ?thesis by (simp add: setupLambdaPermissions_def extends_by_same)
next
  case (Returns arns)
  have "extends_by [''addPermission''] r (fold (addPermission_for h instanceArn) arns r)"
    by (rule extends_by_fold) (rule extends_by_addPermission_for)
  with Returns show ?thesis by (simp add: setupLambdaPermissions_def)
qed

definition create_ops :: "string list" where
  "create_ops = [''addPermission'', ''createContactFlow'']"

lemma extends_by_handleCreate:
  "extends_by create_ops r
     (fst (handleCreate h flowName flowContent instanceId instanceArn lambdaArns releaseTag r))"
proof -
  obtain r1 res where s: "setupLambdaPermissions h lambdaArns instanceArn r = (r1, res)"
    by (cases "setupLambdaPermissions h lambdaArns instanceArn r")
  have "extends_by [''addPermission''] r r1"
    using extends_by_setupLambdaPermissions [of r h lambdaArns instanceArn] s by simp
  then have e1: "extends_by create_ops r r1"
    by (rule extends_by_mono) (simp add: create_ops_def)
  show ?thesis
  proof (cases res)
    case (Throws m)
    with s e1 show ?thesis by (simp add: handleCreate_def)
  next
    case (Returns u)
    obtain r2 suffix where a: "version_suffix h releaseTag r1 = (r2, suffix)"
      by (cases "version_suffix h releaseTag r1")
    have c2: "calls r2 = calls r1"
      using a calls_now [of h r1]
      by (auto simp: version_suffix_def Let_def split: if_splits prod.splits)
    obtain r3 deployedAt where b: "now h r2 = (r3, deployedAt)" by (cases "now h r2")
    have c3: "calls r3 = calls r1" using b calls_now [of h r2] c2 by simp
    define q where "q = createContactFlow_request h instanceId (text_opt flowName @ ''-'' @ suffix)
      flowContent releaseTag deployedAt"
    obtain r4 res4 where d: "send h q r3 = (r4, res4)" by (cases "send h q r3")
    have "extends_by create_ops r3 (fst (send h q r3))"
      by (rule extends_by_send) (simp add: q_def createContactFlow_request_def create_ops_def)
    with d have "extends_by create_ops r3 r4" by simp
    moreover have "extends_by create_ops r1 r3" using c3 by (rule extends_by_same)
    ultimately have e4: "extends_by create_ops r r4"
      using e1 by (blast intro: extends_by_trans)
    have "fst (handleCreate h flowName flowContent instanceId instanceArn lambdaArns releaseTag r) = r4"
      unfolding handleCreate_def s Returns
      using d by (simp add: a b Let_def q_def split: outcome.splits)
    with e4 show ?thesis by simp
  qed
qed

lemma extends_by_handleUpdate_blue_green:
  assumes "truthy_opt blueGreenDeployment"
  shows "extends_by create_ops r
     (fst (handleUpdate h contactFlowArn flowName flowContent instanceId lambdaArns
             blueGreenDeployment releaseTag r))"
proof -
  define sourceArn where "sourceArn = Some (JStr (''arn:aws:connect:'' @ env_text h ''AWS_REGION'' @ '':''
                @ env_text h ''AWS_ACCOUNT_ID'' @ '':instance/'' @ text_opt instanceId))"
  obtain r1 res where s: "setupLambdaPermissions h lambdaArns sourceArn r = (r1, res)"
    by (cases "setupLambdaPermissions h lambdaArns sourceArn r")
  have "extends_by [''addPermission''] r r1"
    using extends_by_setupLambdaPermissions [of r h lambdaArns sourceArn] s by simp
  then have e1: "extends_by create_ops r r1"
    by (rule extends_by_mono) (simp add: create_ops_def)
  have e2: "extends_by create_ops r
      (fst (handleCreate h flowName flowContent instanceId instanceArn lambdaArns releaseTag r1))"
    for instanceArn
    using e1 extends_by_handleCreate by (rule extends_by_trans)
  show ?thesis
    unfolding handleUpdate_def sourceArn_def [symmetric] s
    using assms e1 e2 by (simp split: outcome.splits)
qed

definition direct_ops :: "string list" where
  "direct_ops = [''addPermission'', ''updateContactFlowContent'']"

lemma extends_by_handleUpdate_direct:
  assumes "\<not> truthy_opt blueGreenDeployment"
  shows "extends_by direct_ops r
     (fst (handleUpdate h contactFlowArn flowName flowContent instanceId lambdaArns
             blueGreenDeployment releaseTag r))"
proof -
  define sourceArn where "sourceArn = Some (JStr (''arn:aws:connect:'' @ env_text h ''AWS_REGION'' @ '':''
                @ env_text h ''AWS_ACCOUNT_ID'' @ '':instance/'' @ text_opt instanceId))"
  obtain r1 res where s: "setupLambdaPermissions h lambdaArns sourceArn r = (r1, res)"
    by (cases "setupLambdaPermissions h lambdaArns sourceArn r")
  have "extends_by [''addPermission''] r r1"
    using extends_by_setupLambdaPermissions [of r h lambdaArns sourceArn] s by simp
  then have e1: "extends_by direct_ops r r1"
    by (rule extends_by_mono) (simp add: direct_ops_def)
  have e2: "extends_by direct_ops r
      (fst (send h (updateContactFlowContent_request instanceId contactFlowId flowContent) r1))"
    for contactFlowId
  proof -
    have "extends_by direct_ops r1
      (fst (send h (updateContactFlowContent_request instanceId contactFlowId flowContent) r1))"
      by (rule extends_by_send) (simp add: updateContactFlowContent_request_def direct_ops_def)
    with e1 show ?thesis by (rule extends_by_trans)
  qed
  have e3: "extends_by direct_ops r r2"
    if "send h (updateContactFlowContent_request instanceId contactFlowId flowContent) r1 = (r2, x)"
    for contactFlowId r2 x
    using e2 [of contactFlowId] that by simp
  show ?thesis
    unfolding handleUpdate_def sourceArn_def [symmetric] s
    using assms e1 e3 by (auto split: outcome.splits prod.splits)
qed

definition describe_ops :: "string list" where
  "describe_ops = [''describeContactFlow'']"

text \<open>
  All that \<open>handleDelete\<close> does to the services is to ask for the description of the flow;
  the answer changes nothing.
\<close>

lemma handleDelete_eq:
  "handleDelete h contactFlowArn instanceId r =
     (if \<not> truthy_opt contactFlowArn \<or> contactFlowArn = Some (JStr ''failed'') then r
      else case split_of contactFlowArn CHR ''/'' of
             Throws m \<Rightarrow> r
           | Returns parts \<Rightarrow> fst (send h (describeContactFlow_request instanceId (last_part parts)) r))"
proof (cases "split_of contactFlowArn CHR ''/''")
  case (Throws m)
  then show ?thesis by (simp add: handleDelete_def)
next
  case (Returns parts)
  obtain r1 res where s: "send h (describeContactFlow_request instanceId (last_part parts)) r = (r1, res)"
    by (cases "send h (describeContactFlow_request instanceId (last_part parts)) r")
  show ?thesis
    unfolding handleDelete_def Returns
    by (simp add: s split: outcome.splits)
qed

lemma handleDelete_cases:
  "handleDelete h contactFlowArn instanceId r = r \<or>
   (\<exists>contactFlowId. handleDelete h contactFlowArn instanceId r
      = fst (send h (describeContactFlow_request instanceId contactFlowId) r))"
  unfolding handleDelete_eq
  by (cases "split_of contactFlowArn CHR ''/''") auto

lemma extends_by_handleDelete:
  "extends_by describe_ops r (handleDelete h contactFlowArn instanceId r)"
proof -
  have "extends_by describe_ops r (fst (send h (describeContactFlow_request instanceId contactFlowId) r))"
    for contactFlowId
    by (rule extends_by_send) (simp add: describeContactFlow_request_def describe_ops_def)
  then show ?thesis
    using handleDelete_cases [of h contactFlowArn instanceId r]
    by (auto simp: extends_by_same)
qed

lemma issued_handleDelete:
  "length (issued r (handleDelete h contactFlowArn instanceId r)) \<le> Suc 0"
  using handleDelete_cases [of h contactFlowArn instanceId r]
  by (auto simp: issued_send issued_same)

subsection \<open>The requests of the handler\<close>

definition all_ops :: "string list" where
  "all_ops = [''addPermission'', ''createContactFlow'', ''updateContactFlowContent'',
     ''describeContactFlow'']"

lemma fst_handler:
  "fst (handler h event r) =
     (case get_prop (Some event) ''ResourceProperties'' of
        Throws m \<Rightarrow> r
      | Returns ResourceProperties \<Rightarrow>
     (case get_prop ResourceProperties ''FlowName'' of
        Throws m \<Rightarrow> r
      | Returns FlowName \<Rightarrow>
          if read_prop (Some event) ''RequestType'' = Some (JStr ''Create'') then
            fst (handleCreate h FlowName (read_prop ResourceProperties ''FlowContent'')
                   (read_prop ResourceProperties ''InstanceId'')
                   (read_prop ResourceProperties ''InstanceArn'')
                   (read_prop ResourceProperties ''LambdaArns'')
                   (read_prop ResourceProperties ''ReleaseTag'') r)
          else if read_prop (Some event) ''RequestType'' = Some (JStr ''Update'') then
            fst (handleUpdate h (read_prop (Some event) ''PhysicalResourceId'') FlowName
                   (read_prop ResourceProperties ''FlowContent'')
                   (read_prop ResourceProperties ''InstanceId'')
                   (read_prop ResourceProperties ''LambdaArns'')
                   (read_prop ResourceProperties ''BlueGreenDeployment'')
                   (read_prop ResourceProperties ''ReleaseTag'') r)
          else if read_prop (Some event) ''RequestType'' = Some (JStr ''Delete'') then
            (if \<not> truthy_opt (read_prop ResourceProperties ''BlueGreenDeployment'')
             then handleDelete h (read_prop (Some event) ''PhysicalResourceId'')
                    (read_prop ResourceProperties ''InstanceId'') r
             else r)
          else r))"
  unfolding handler_def Let_def
  by (simp split: outcome.splits prod.splits)

lemma get_prop_Throws:
  assumes "get_prop v key = Throws m"
  shows "m = type_error \<and> get_prop v key' = Throws type_error"
  using assms by (cases "(v, key)" rule: get_prop.cases) simp_all

lemma snd_handler_Delete:
  assumes "read_prop (Some event) ''RequestType'' = Some (JStr ''Delete'')"
  shows "snd (handler h event r) =
     (case get_prop (read_prop (Some event) ''ResourceProperties'') ''FlowName'' of
        Throws m \<Rightarrow> Throws m
      | Returns FlowName \<Rightarrow> Returns (SUCCESS (read_prop (Some event) ''PhysicalResourceId'') []))"
proof (cases "get_prop (Some event) ''ResourceProperties''")
  case (Throws m)
  from get_prop_Throws [OF Throws, of "''RequestType''"] assms show ?thesis
    by (simp add: read_prop_def)
next
  case (Returns ResourceProperties)
  with assms show ?thesis
    unfolding handler_def Let_def
    by (simp add: read_prop_def split: outcome.splits)
qed

lemma extends_by_handler: "extends_by all_ops r (fst (handler h event r))"
proof -
  have c: "extends_by all_ops r r'" if "extends_by create_ops r r'" for r'
    using that by (rule extends_by_mono) (simp add: create_ops_def all_ops_def)
  have d: "extends_by all_ops r r'" if "extends_by direct_ops r r'" for r'
    using that by (rule extends_by_mono) (simp add: direct_ops_def all_ops_def)
  have e: "extends_by all_ops r r'" if "extends_by describe_ops r r'" for r'
    using that by (rule extends_by_mono) (simp add: describe_ops_def all_ops_def)
  have u: "extends_by all_ops r
     (fst (handleUpdate h contactFlowArn flowName flowContent instanceId lambdaArns
             blueGreenDeployment releaseTag r))"
    for contactFlowArn flowName flowContent instanceId lambdaArns blueGreenDeployment releaseTag
    by (cases "truthy_opt blueGreenDeployment")
      (simp_all add: c d extends_by_handleUpdate_blue_green extends_by_handleUpdate_direct)
  show ?thesis
    unfolding fst_handler
    by (simp add: extends_by_same u c e extends_by_handleCreate extends_by_handleDelete
        split: outcome.splits)
qed

lemma extends_by_issued:
  assumes "extends_by ops r r'" and "q \<in> set (issued r r')"
  shows "operation q \<in> set ops"
  using assms by (auto simp: extends_by_def list_all_iff)

subsection \<open>A deployment\<close>

definition new_run :: run where
  "new_run = \<lparr>calls = [], reads = 0\<rparr>"

definition sample_host :: host where
  "sample_host =
     \<lparr>service = (\<lambda>history q.
        if operation q = ''describeContactFlow''
        then Returns (Some (JObj [(''ContactFlow'', JObj [(''State'', JStr ''ACTIVE'')])]))
        else if operation q = ''createContactFlow''
        then Returns (Some (JObj [(''ContactFlowArn'',
               JStr ''arn:aws:connect:us-east-1:123456789012:instance/12345678-1234-1234-1234-123456789012/contact-flow/v2'')]))
        else Returns (Some (JObj []))),
      clock = (\<lambda>k. 1700000000000 + int k),
      toISOString = (\<lambda>t. ''2023-11-14T22:13:20.000Z''),
      process_env = (\<lambda>name. if name = ''AWS_REGION'' then Some ''us-east-1'' else None)\<rparr>"

definition deployed_arn :: string where
  "deployed_arn = ''arn:aws:connect:us-east-1:123456789012:instance/12345678-1234-1234-1234-123456789012/contact-flow/v1''"

definition flow_event :: "string \<Rightarrow> json \<Rightarrow> json" where
  "flow_event requestType blueGreenDeployment = JObj
     [(''RequestType'', JStr requestType),
      (''PhysicalResourceId'', JStr deployed_arn),
      (''ResourceProperties'', JObj
         [(''FlowName'', JStr ''Sales''),
          (''FlowContent'', JStr ''{}''),
          (''InstanceId'', JStr ''12345678-1234-1234-1234-123456789012''),
          (''InstanceArn'', JStr ''arn:aws:connect:us-east-1:123456789012:instance/12345678-1234-1234-1234-123456789012''),
          (''Environment'', JStr ''test''),
          (''BlueGreenDeployment'', blueGreenDeployment),
          (''LambdaArns'', JArr [JStr ''arn:aws:lambda:us-east-1:123456789012:function:lookup'']),
          (''ReleaseTag'', JStr ''v2'')])]"

text \<open>
  C9. Whatever the event, the services' answers and the requests made before, the handler
  only asks the services to add a Lambda permission, to create a flow, to update the
  content of a flow or to describe a flow: it never asks for a flow to be deleted. On a
  \<open>Delete\<close> event it makes at most one request, a \<open>describeContactFlow\<close>, makes none under
  Blue/Green, and answers \<open>SUCCESS\<close> with the physical resource id it was given, whether the
  flow is reported \<open>ACTIVE\<close> or not. On an \<open>Update\<close> event under Blue/Green it does not update
  the content of the deployed flow either: it creates a flow.
\<close>

theorem deployed_flow_never_deleted:
  "extends_by all_ops r (fst (handler h event r)) \<and>
   (\<forall>q \<in> set (issued r (fst (handler h event r))). operation q \<noteq> ''deleteContactFlow'') \<and>
   (read_prop (Some event) ''RequestType'' = Some (JStr ''Delete'') \<longrightarrow>
      extends_by describe_ops r (fst (handler h event r)) \<and>
      length (issued r (fst (handler h event r))) \<le> 1 \<and>
      (truthy_opt (read_prop (read_prop (Some event) ''ResourceProperties'') ''BlueGreenDeployment'')
         \<longrightarrow> fst (handler h event r) = r) \<and>
      snd (handler h event r) =
        (case get_prop (read_prop (Some event) ''ResourceProperties'') ''FlowName'' of
           Throws m \<Rightarrow> Throws m
         | Returns FlowName \<Rightarrow> Returns (SUCCESS (read_prop (Some event) ''PhysicalResourceId'') []))) \<and>
   (read_prop (Some event) ''RequestType'' = Some (JStr ''Update'') \<and>
    truthy_opt (read_prop (read_prop (Some event) ''ResourceProperties'') ''BlueGreenDeployment'')
      \<longrightarrow> extends_by create_ops r (fst (handler h event r)))"
proof -
  have a: "extends_by all_ops r (fst (handler h event r))" by (rule extends_by_handler)
  have b: "operation q \<noteq> ''deleteContactFlow''" if "q \<in> set (issued r (fst (handler h event r)))" for q
    using extends_by_issued [OF a that] by (auto simp: all_ops_def)
  have c: "extends_by describe_ops r (fst (handler h event r)) \<and>
      length (issued r (fst (handler h event r))) \<le> 1 \<and>
      (truthy_opt (read_prop (read_prop (Some event) ''ResourceProperties'') ''BlueGreenDeployment'')
         \<longrightarrow> fst (handler h event r) = r)"
    if d: "read_prop (Some event) ''RequestType'' = Some (JStr ''Delete'')"
  proof (cases "get_prop (Some event) ''ResourceProperties''")
    case (Throws m)
    then show ?thesis by (simp add: fst_handler extends_by_same issued_same)
  next
    case (Returns ResourceProperties)
    then have p: "read_prop (Some event) ''ResourceProperties'' = ResourceProperties"
      by (simp add: read_prop_def)
    show ?thesis
      unfolding fst_handler p Returns using d
      by (simp add: extends_by_same issued_same extends_by_handleDelete issued_handleDelete
          split: outcome.splits)
  qed
  have e: "extends_by create_ops r (fst (handler h event r))"
    if u: "read_prop (Some event) ''RequestType'' = Some (JStr ''Update'')"
      and g: "truthy_opt (read_prop (read_prop (Some event) ''ResourceProperties'') ''BlueGreenDeployment'')"
  proof (cases "get_prop (Some event) ''ResourceProperties''")
    case (Throws m)
    then show ?thesis by (simp add: fst_handler extends_by_same)
  next
    case (Returns ResourceProperties)
    then have p: "read_prop (Some event) ''ResourceProperties'' = ResourceProperties"
      by (simp add: read_prop_def)
    show ?thesis
      unfolding fst_handler Returns using u g [unfolded p]
      by (simp add: extends_by_same extends_by_handleUpdate_blue_green split: outcome.splits)
  qed
  from a b c e snd_handler_Delete [of event h r] show ?thesis by blast
qed

text \<open>
  C9 at a deployed flow that the service reports \<open>ACTIVE\<close>: a \<open>Delete\<close> event outside
  Blue/Green, a \<open>Delete\<close> event under Blue/Green and an \<open>Update\<close> event under Blue/Green.
\<close>

theorem deployed_flow_never_deleted_witness:
  "read_prop (Some (flow_event ''Delete'' (JBool False))) ''RequestType'' = Some (JStr ''Delete'') \<and>
   issued new_run (fst (handler sample_host (flow_event ''Delete'' (JBool False)) new_run))
     = [describeContactFlow_request (Some (JStr ''12345678-1234-1234-1234-123456789012'')) (Some (JStr ''v1''))] \<and>
   extends_by describe_ops new_run (fst (handler sample_host (flow_event ''Delete'' (JBool False)) new_run)) \<and>
   snd (handler sample_host (flow_event ''Delete'' (JBool False)) new_run)
     = Returns (SUCCESS (Some (JStr deployed_arn)) []) \<and>
   fst (handler sample_host (flow_event ''Delete'' (JBool True)) new_run) = new_run \<and>
   extends_by create_ops new_run (fst (handler sample_host (flow_event ''Update'' (JBool True)) new_run))"
proof -
  have d: "read_prop (Some (flow_event ''Delete'' b)) ''RequestType'' = Some (JStr ''Delete'')" for b
    by (simp add: flow_event_def read_prop_def)
  have u: "read_prop (Some (flow_event ''Update'' b)) ''RequestType'' = Some (JStr ''Update'')" for b
    by (simp add: flow_event_def read_prop_def)
  have g: "truthy_opt (read_prop (read_prop (Some (flow_event t (JBool True))) ''ResourceProperties'')
      ''BlueGreenDeployment'')" for t
    by (simp add: flow_event_def read_prop_def truthy_opt_def)
  have f: "get_prop (read_prop (Some (flow_event t b)) ''ResourceProperties'') ''FlowName''
      = Returns (Some (JStr ''Sales''))" for t b
    by (simp add: flow_event_def read_prop_def)
  have p: "read_prop (Some (flow_event t b)) ''PhysicalResourceId'' = Some (JStr deployed_arn)" for t b
    by (simp add: flow_event_def read_prop_def)
  have i: "issued new_run (fst (handler sample_host (flow_event ''Delete'' (JBool False)) new_run))
     = [describeContactFlow_request (Some (JStr ''12345678-1234-1234-1234-123456789012'')) (Some (JStr ''v1''))]"
    by code_simp
  from deployed_flow_never_deleted [of new_run sample_host "flow_event ''Delete'' (JBool False)"]
    deployed_flow_never_deleted [of new_run sample_host "flow_event ''Delete'' (JBool True)"]
    deployed_flow_never_deleted [of new_run sample_host "flow_event ''Update'' (JBool True)"]
    d u g f p i
  show ?thesis by simp
qed

section \<open>Token paths that only the prototype resolves\<close>

text \<open>
  C1 does not hold of the code. The token tree of \<open>sample_env\<close> defines \<open>Queue.Sales\<close>,
  \<open>Queue.Alias\<close>, \<open>Queue.None\<close> and the items of \<open>List\<close>: \<open>flattenTokens\<close>, the list of defined
  token paths of this repository, has no path \<open>constructor\<close> or \<open>Queue.toString\<close>. A template
  that uses them should make \<open>render\<close> throw \<open>Token not found: constructor\<close>. But
  \<open>resolveToken\<close> tests \<open>part in value\<close>, which is true of what an object inherits from
  \<open>Object.prototype\<close>: the paths resolve to built-in functions, and \<open>render\<close> returns a text
  with the source text of these functions in it.
\<close>

theorem render_resolves_inherited_members:
  "flattenTokens sample_tokens [] =
     [''Queue.Sales'', ''Queue.Alias'', ''Queue.None'', ''List.0'', ''List.1'', ''List.2''] \<and>
   render sample_runtime sample_env ''{${constructor}, ${Queue.toString}}''
     = Inr ''{function Object() { [native code] }, function toString() { [native code] }}''"
  by code_simp

end
